theory Spec2Isabelle
  imports Main "HOL-Library.Word" "HOL-Library.Sublist" "HOL-Library.Char_ord"
begin

unbundle bit_operations_syntax

section \<open>The Go library functions the plugin calls\<close>

text \<open>
  The plugin is one Go package in several revisions. Everything it computes goes through a
  handful of standard-library calls: \<open>strings.FieldsFunc\<close>, \<open>strings.Contains\<close>,
  \<open>slices.Contains\<close>, \<open>http.Header.Get\<close>, \<open>net.ParseIP\<close>, \<open>net.ParseCIDR\<close>, the
  \<open>net.IP\<close> classification methods, \<open>net.IPNet.Contains\<close> and the \<open>regexp\<close> package.
  All but \<open>regexp\<close> are modelled here after the Go sources (go1.22, where \<open>net.ParseIP\<close>
  delegates to \<open>netip.ParseAddr\<close>). The \<open>regexp\<close> package is a parameter of the model:
  \<open>compile\<close> stands for \<open>regexp.Compile\<close> (\<open>None\<close> is a compile error) and
  \<open>matchString\<close> for \<open>(*Regexp).MatchString\<close>.

  A Go string is a sequence of bytes, here a \<open>string\<close> (a list of 8-bit characters).
\<close>

subsection \<open>Package strings and slices\<close>

text \<open>
  \<open>strings.FieldsFunc(s, f)\<close> cuts \<open>s\<close> at every run of characters satisfying \<open>f\<close> and
  returns the non-empty pieces between the runs. The Go loop walks the string keeping the
  start of the current field; \<open>cur\<close> is the field read so far (empty when no field is open).
  The plugin calls it with \<open>f = (\<lambda>c. c = ',')\<close> only; a comma is one byte in UTF-8 and
  occurs in no multi-byte sequence, so cutting bytes and cutting runes agree.
\<close>

fun FieldsFunc_loop :: "(char \<Rightarrow> bool) \<Rightarrow> string \<Rightarrow> string \<Rightarrow> string list" where
  "FieldsFunc_loop f cur [] = (if cur = [] then [] else [cur])"
| "FieldsFunc_loop f cur (c # cs) =
     (if f c then (if cur = [] then FieldsFunc_loop f [] cs else cur # FieldsFunc_loop f [] cs)
      else FieldsFunc_loop f (cur @ [c]) cs)"

definition FieldsFunc :: "string \<Rightarrow> (char \<Rightarrow> bool) \<Rightarrow> string list" where
  "FieldsFunc s f = FieldsFunc_loop f [] s"

text \<open>\<open>strings.Contains(s, substr)\<close>: \<open>substr\<close> occurs in \<open>s\<close> as a contiguous run of bytes.\<close>

fun strings_Contains :: "string \<Rightarrow> string \<Rightarrow> bool" where
  "strings_Contains [] substr = (substr = [])"
| "strings_Contains (c # cs) substr = (prefix substr (c # cs) \<or> strings_Contains cs substr)"

text \<open>\<open>slices.Contains(xs, v)\<close>: some element of \<open>xs\<close> equals \<open>v\<close>.\<close>

definition slices_Contains :: "'a list \<Rightarrow> 'a \<Rightarrow> bool" where
  "slices_Contains xs v = (v \<in> set xs)"

text \<open>\<open>strings.Join(elems, sep)\<close>, used to describe header values made of several tokens.\<close>

fun strings_Join :: "string list \<Rightarrow> string \<Rightarrow> string" where
  "strings_Join [] sep = []"
| "strings_Join [e] sep = e"
| "strings_Join (e # es) sep = e @ sep @ strings_Join es sep"

subsection \<open>Package net: addresses\<close>

text \<open>
  \<open>net.IP\<close> is a byte slice: 4 bytes for the short IPv4 form, 16 bytes otherwise; the nil
  slice is the empty list. A \<open>netip.Addr\<close> is kept as its 16-byte form, the flag that it
  was written as an IPv4 address, and its zone.
\<close>

type_synonym byte = "8 word"
type_synonym IP = "byte list"

datatype Addr = Addr (Is4: bool) (As16: "byte list") (Zone: string)

definition is_digit :: "char \<Rightarrow> bool" where
  "is_digit c = (CHR ''0'' \<le> c \<and> c \<le> CHR ''9'')"

definition digit_val :: "char \<Rightarrow> nat" where
  "digit_val c = of_char c - of_char CHR ''0''"

text \<open>The value of a hexadecimal digit, \<open>None\<close> for any other character.\<close>

definition hex_val :: "char \<Rightarrow> nat option" where
  "hex_val c =
     (if CHR ''0'' \<le> c \<and> c \<le> CHR ''9'' then Some (of_char c - of_char CHR ''0'')
      else if CHR ''a'' \<le> c \<and> c \<le> CHR ''f'' then Some (of_char c - of_char CHR ''a'' + 10)
      else if CHR ''A'' \<le> c \<and> c \<le> CHR ''F'' then Some (of_char c - of_char CHR ''A'' + 10)
      else None)"

text \<open>
  \<open>netip.parseIPv4Fields\<close>: four decimal fields separated by dots, each at most 255 and
  without a leading zero. \<open>first\<close> says that the character read is the first of the string,
  \<open>prevdot\<close> that the one before it was a dot, \<open>val\<close> and \<open>digLen\<close> are the value and the
  number of digits of the field being read, \<open>parts\<close> the fields completed so far.
\<close>

fun parseIPv4Fields_loop ::
  "string \<Rightarrow> bool \<Rightarrow> bool \<Rightarrow> nat \<Rightarrow> nat \<Rightarrow> byte list \<Rightarrow> byte list option" where
  "parseIPv4Fields_loop [] first prevdot val digLen parts =
     (if length parts < 3 then None else Some (parts @ [of_nat val]))"
| "parseIPv4Fields_loop (c # cs) first prevdot val digLen parts =
     (if is_digit c then
        (if digLen = 1 \<and> val = 0 then None
         else let val' = val * 10 + digit_val c in
           if val' > 255 then None
           else parseIPv4Fields_loop cs False False val' (digLen + 1) parts)
      else if c = CHR ''.'' then
        (if first \<or> cs = [] \<or> prevdot then None
         else if length parts = 3 then None
         else parseIPv4Fields_loop cs False True 0 0 (parts @ [of_nat val]))
      else None)"

definition parseIPv4Fields :: "string \<Rightarrow> byte list option" where
  "parseIPv4Fields s = parseIPv4Fields_loop s True False 0 0 []"

text \<open>The 16-byte form of an IPv4 address (\<open>Addr.As16\<close>): the prefix \<open>::ffff:0:0/96\<close>.\<close>

definition v4InV6Prefix :: "byte list" where
  "v4InV6Prefix = [0, 0, 0, 0, 0, 0, 0, 0, 0, 0, 0xff, 0xff]"

text \<open>
  One group of an IPv6 address: up to four hexadecimal digits. Returns the number of digits
  read, their value and the rest of the string; \<open>None\<close> when a fifth digit follows.
\<close>

fun hexGroup :: "string \<Rightarrow> nat \<Rightarrow> nat \<Rightarrow> (nat \<times> nat \<times> string) option" where
  "hexGroup [] off acc = Some (off, acc, [])"
| "hexGroup (c # cs) off acc =
     (case hex_val c of
        None \<Rightarrow> Some (off, acc, c # cs)
      | Some d \<Rightarrow>
          (let acc' = acc * 16 + d in
           if off > 3 then None
           else if acc' > 65535 then None
           else hexGroup cs (off + 1) acc'))"

text \<open>
  The main loop of \<open>netip.parseIPv6\<close>, run while fewer than 16 bytes are filled. \<open>ip\<close> holds
  the bytes filled so far (the Go index \<open>i\<close> is its length), \<open>ellipsis\<close> the position of
  \<open>::\<close> if one was read. The result is the state at the end of the loop.
\<close>

function parseIPv6_loop ::
  "string \<Rightarrow> byte list \<Rightarrow> nat option \<Rightarrow> (string \<times> byte list \<times> nat option) option" where
  "parseIPv6_loop s ip ellipsis =
     (if \<not> length ip < 16 then Some (s, ip, ellipsis)
      else case hexGroup s 0 0 of
        None \<Rightarrow> None
      | Some (off, acc, rest) \<Rightarrow>
          if off = 0 then None
          else if rest \<noteq> [] \<and> hd rest = CHR ''.'' then
            (if ellipsis = None \<and> length ip \<noteq> 12 then None
             else if length ip + 4 > 16 then None
             else case parseIPv4Fields s of
                    None \<Rightarrow> None
                  | Some parts \<Rightarrow> Some ([], ip @ parts, ellipsis))
          else
            (let ip' = ip @ [of_nat (acc div 256), of_nat (acc mod 256)] in
             case rest of
               [] \<Rightarrow> Some ([], ip', ellipsis)
             | c # s1 \<Rightarrow>
                 if c \<noteq> CHR '':'' then None
                 else (case s1 of
                         [] \<Rightarrow> None
                       | c1 # s2 \<Rightarrow>
                           if c1 = CHR '':'' then
                             (if ellipsis \<noteq> None then None
                              else if s2 = [] then Some ([], ip', Some (length ip'))
                              else parseIPv6_loop s2 ip' (Some (length ip')))
                           else parseIPv6_loop s1 ip' ellipsis)))"
  by pat_completeness auto
termination
  by (relation "measure (\<lambda>(s, ip, ellipsis). 16 - length ip)") auto

declare parseIPv6_loop.simps [simp del]

text \<open>
  \<open>netip.parseIPv6\<close>: the zone is split off at the first \<open>%\<close>, a leading \<open>::\<close> is read,
  the loop runs, and a \<open>::\<close> is expanded to the zero bytes it stands for.
\<close>

definition parseIPv6 :: "string \<Rightarrow> Addr option" where
  "parseIPv6 inp =
     (let s0 = takeWhile (\<lambda>c. c \<noteq> CHR ''%'') inp;
          hasZone = (CHR ''%'' \<in> set inp);
          zone = drop (length s0 + 1) inp
      in if hasZone \<and> zone = [] then None
         else
           (let lead = (length s0 \<ge> 2 \<and> s0 ! 0 = CHR '':'' \<and> s0 ! 1 = CHR '':'');
                s1 = (if lead then drop 2 s0 else s0);
                ellipsis0 = (if lead then Some 0 else None)
            in if lead \<and> s1 = [] then Some (Addr False (replicate 16 0) zone)
               else case parseIPv6_loop s1 [] ellipsis0 of
                 None \<Rightarrow> None
               | Some (s, ip, ellipsis) \<Rightarrow>
                   if s \<noteq> [] then None
                   else if length ip < 16 then
                     (case ellipsis of
                        None \<Rightarrow> None
                      | Some e \<Rightarrow>
                          Some (Addr False (take e ip @ replicate (16 - length ip) 0 @ drop e ip) zone))
                   else if ellipsis \<noteq> None then None
                   else Some (Addr False ip zone)))"

text \<open>
  \<open>netip.ParseAddr\<close>: the first \<open>.\<close>, \<open>:\<close> or \<open>%\<close> of the string decides how all of it is
  read.
\<close>

fun ParseAddr_scan :: "string \<Rightarrow> string \<Rightarrow> Addr option" where
  "ParseAddr_scan s [] = None"
| "ParseAddr_scan s (c # cs) =
     (if c = CHR ''.'' then
        (case parseIPv4Fields s of
           None \<Rightarrow> None
         | Some f \<Rightarrow> Some (Addr True (v4InV6Prefix @ f) []))
      else if c = CHR '':'' then parseIPv6 s
      else if c = CHR ''%'' then None
      else ParseAddr_scan s cs)"

definition netip_ParseAddr :: "string \<Rightarrow> Addr option" where
  "netip_ParseAddr s = ParseAddr_scan s s"

text \<open>
  \<open>net.ParseIP\<close>: an address with a zone is refused; the result is always 16 bytes, \<open>None\<close>
  stands for Go's nil.
\<close>

definition net_ParseIP :: "string \<Rightarrow> IP option" where
  "net_ParseIP s =
     (case netip_ParseAddr s of
        None \<Rightarrow> None
      | Some a \<Rightarrow> if Zone a \<noteq> [] then None else Some (As16 a))"

subsection \<open>Package net: classification and networks\<close>

text \<open>\<open>IP.To4\<close>: the 4-byte form of an IPv4 address, \<open>None\<close> (nil) for any other address.\<close>

definition To4 :: "IP \<Rightarrow> IP option" where
  "To4 ip =
     (if length ip = 4 then Some ip
      else if length ip = 16 \<and> list_all (\<lambda>b. b = 0) (take 10 ip)
              \<and> ip ! 10 = 0xff \<and> ip ! 11 = 0xff then Some (drop 12 ip)
      else None)"

definition IPv6loopback :: IP where
  "IPv6loopback = [0, 0, 0, 0, 0, 0, 0, 0, 0, 0, 0, 0, 0, 0, 0, 1]"

definition IP_Equal :: "IP \<Rightarrow> IP \<Rightarrow> bool" where
  "IP_Equal ip x =
     (if length ip = length x then ip = x
      else if length ip = 4 \<and> length x = 16 then take 12 x = v4InV6Prefix \<and> ip = drop 12 x
      else if length ip = 16 \<and> length x = 4 then take 12 ip = v4InV6Prefix \<and> drop 12 ip = x
      else False)"

definition IsLoopback :: "IP \<Rightarrow> bool" where
  "IsLoopback ip =
     (case To4 ip of
        Some ip4 \<Rightarrow> ip4 ! 0 = 127
      | None \<Rightarrow> IP_Equal ip IPv6loopback)"

definition IsLinkLocalUnicast :: "IP \<Rightarrow> bool" where
  "IsLinkLocalUnicast ip =
     (case To4 ip of
        Some ip4 \<Rightarrow> ip4 ! 0 = 169 \<and> ip4 ! 1 = 254
      | None \<Rightarrow> length ip = 16 \<and> ip ! 0 = 0xfe \<and> (ip ! 1) AND 0xc0 = 0x80)"

definition IsLinkLocalMulticast :: "IP \<Rightarrow> bool" where
  "IsLinkLocalMulticast ip =
     (case To4 ip of
        Some ip4 \<Rightarrow> ip4 ! 0 = 224 \<and> ip4 ! 1 = 0 \<and> ip4 ! 2 = 0
      | None \<Rightarrow> length ip = 16 \<and> ip ! 0 = 0xff \<and> (ip ! 1) AND 0x0f = 0x02)"

text \<open>\<open>net.IPNet\<close> is a struct of a network number and a mask.\<close>

record IPNet =
  IP :: IP
  Mask :: "byte list"

text \<open>
  \<open>net.CIDRMask(ones, bits)\<close>: \<open>bits / 8\<close> bytes whose first \<open>ones\<close> bits are set. The loop
  runs over the \<open>l\<close> bytes still to write with \<open>n\<close> the bits still to set.
\<close>

fun CIDRMask_loop :: "nat \<Rightarrow> nat \<Rightarrow> byte list" where
  "CIDRMask_loop 0 n = []"
| "CIDRMask_loop (Suc l) n =
     (if n \<ge> 8 then 0xff # CIDRMask_loop l (n - 8)
      else NOT (drop_bit n (0xff :: byte)) # CIDRMask_loop l 0)"

definition CIDRMask :: "nat \<Rightarrow> nat \<Rightarrow> byte list" where
  "CIDRMask ones bits =
     (if bits \<noteq> 32 \<and> bits \<noteq> 128 then []
      else if ones > bits then []
      else CIDRMask_loop (bits div 8) ones)"

text \<open>\<open>IP.Mask(mask)\<close>: the address with the mask applied, nil when the lengths do not fit.\<close>

definition IP_Mask :: "IP \<Rightarrow> byte list \<Rightarrow> IP" where
  "IP_Mask ip0 mask0 =
     (let mask = (if length mask0 = 16 \<and> length ip0 = 4 \<and> list_all (\<lambda>b. b = 0xff) (take 12 mask0)
                  then drop 12 mask0 else mask0);
          ip = (if length mask = 4 \<and> length ip0 = 16 \<and> take 12 ip0 = v4InV6Prefix
                then drop 12 ip0 else ip0)
      in if length ip \<noteq> length mask then []
         else map (\<lambda>(a, m). a AND m) (zip ip mask))"

text \<open>
  \<open>dtoi\<close> of package net: the decimal number at the start of a string, the number of
  characters read, and whether a number below \<open>0xFFFFFF\<close> was read.
\<close>

fun dtoi_loop :: "string \<Rightarrow> nat \<Rightarrow> nat \<Rightarrow> nat \<times> nat \<times> bool" where
  "dtoi_loop [] n i = (if i = 0 then (0, 0, False) else (n, i, True))"
| "dtoi_loop (c # cs) n i =
     (if is_digit c then
        (let n' = n * 10 + digit_val c in
         if n' \<ge> 0xFFFFFF then (0xFFFFFF, i, False) else dtoi_loop cs n' (i + 1))
      else if i = 0 then (0, 0, False) else (n, i, True))"

definition dtoi :: "string \<Rightarrow> nat \<times> nat \<times> bool" where
  "dtoi s = dtoi_loop s 0 0"

definition BitLen :: "Addr \<Rightarrow> nat" where
  "BitLen a = (if Is4 a then 32 else 128)"

text \<open>
  \<open>net.ParseCIDR\<close>: the text before the first \<open>/\<close> is an address without zone, the text
  after it a prefix length that fits the address family. Returns the address and the network;
  \<open>None\<close> stands for the parse error.
\<close>

definition net_ParseCIDR :: "string \<Rightarrow> (IP \<times> IPNet) option" where
  "net_ParseCIDR s =
     (if CHR ''/'' \<notin> set s then None
      else
        (let addr = takeWhile (\<lambda>c. c \<noteq> CHR ''/'') s;
             mask = drop (length addr + 1) s
         in case netip_ParseAddr addr of
              None \<Rightarrow> None
            | Some ipAddr \<Rightarrow>
                if Zone ipAddr \<noteq> [] then None
                else (case dtoi mask of
                        (n, i, ok) \<Rightarrow>
                          if \<not> ok \<or> i \<noteq> length mask \<or> n > BitLen ipAddr then None
                          else
                            (let m = CIDRMask n (BitLen ipAddr);
                                 addr16 = As16 ipAddr
                             in Some (addr16, \<lparr>IP = IP_Mask addr16 m, Mask = m\<rparr>)))))"

text \<open>
  \<open>networkNumberAndMask\<close> and \<open>IPNet.Contains\<close>: the network number and the address are
  brought to their shortest form; the address is in the network when both have the same
  length and agree on every bit of the mask.
\<close>

definition networkNumberAndMask :: "IPNet \<Rightarrow> (IP \<times> byte list) option" where
  "networkNumberAndMask n =
     (let ip4 = To4 (IP n) in
      if ip4 = None \<and> length (IP n) \<noteq> 16 then None
      else
        (let ip = (case ip4 of Some x \<Rightarrow> x | None \<Rightarrow> IP n);
             m = Mask n
         in if length m = 4 then (if length ip \<noteq> 4 then None else Some (ip, m))
            else if length m = 16 then (if length ip = 4 then Some (ip, drop 12 m) else Some (ip, m))
            else None))"

definition IPNet_Contains :: "IPNet \<Rightarrow> IP \<Rightarrow> bool" where
  "IPNet_Contains n ip0 =
     (case networkNumberAndMask n of
        None \<Rightarrow> length (case To4 ip0 of Some x \<Rightarrow> x | None \<Rightarrow> ip0) = 0
      | Some (nn, m) \<Rightarrow>
          (let ip = (case To4 ip0 of Some x \<Rightarrow> x | None \<Rightarrow> ip0)
           in if length ip \<noteq> length nn then False
              else list_all (\<lambda>(a, b, c). a AND c = b AND c) (zip nn (zip ip m))))"

subsection \<open>Package net/http: headers\<close>

text \<open>
  \<open>http.Header\<close> is a map from canonical header names to the list of values received
  under that name. \<open>Header.Get(key)\<close> canonicalises \<open>key\<close> (first letter and every letter
  after a hyphen in upper case, the others in lower case) and returns the first value stored
  under it, the empty string when there is none. The two keys the plugin passes consist of
  letters and hyphens only.
\<close>

type_synonym Header = "(string \<times> string list) list"

definition toUpper :: "char \<Rightarrow> char" where
  "toUpper c =
     (case map_of (zip ''abcdefghijklmnopqrstuvwxyz'' ''ABCDEFGHIJKLMNOPQRSTUVWXYZ'') c of
        Some C \<Rightarrow> C
      | None \<Rightarrow> c)"

definition toLower :: "char \<Rightarrow> char" where
  "toLower c =
     (case map_of (zip ''ABCDEFGHIJKLMNOPQRSTUVWXYZ'' ''abcdefghijklmnopqrstuvwxyz'') c of
        Some C \<Rightarrow> C
      | None \<Rightarrow> c)"

fun canonical_loop :: "bool \<Rightarrow> string \<Rightarrow> string" where
  "canonical_loop upper [] = []"
| "canonical_loop upper (c # cs) =
     (if upper then toUpper c else toLower c) # canonical_loop (c = CHR ''-'') cs"

definition CanonicalMIMEHeaderKey :: "string \<Rightarrow> string" where
  "CanonicalMIMEHeaderKey key = canonical_loop True key"

definition Header_Get :: "Header \<Rightarrow> string \<Rightarrow> string" where
  "Header_Get h key =
     (case map_of h (CanonicalMIMEHeaderKey key) of
        None \<Rightarrow> []
      | Some [] \<Rightarrow> []
      | Some (v # vs) \<Rightarrow> v)"

section \<open>The plugin\<close>

text \<open>
  The repository holds the plugin in three revisions that differ in the rules they know:
  \<^item> \<open>traefik_block_regex_urls.go\<close>: regex rules and the exemption of private addresses
    (suffix \<open>_ip\<close> below);
  \<^item> the revision with \<open>matchStrings\<close>: substring rules, then regex rules (suffix
    \<open>_substr\<close>; an earlier copy of it still carries the unused fields
    \<open>allowLocalRequests\<close> and \<open>privateIPRanges\<close> and has the same \<open>ServeHTTP\<close>);
  \<^item> the revision with \<open>exactMatch\<close>: exact rules, then regex rules (suffix \<open>_exact\<close>).
  The fields common to the three structs form a record that each revision extends.
  \<open>'r\<close> is the type of compiled regular expressions, \<open>'h\<close> that of handlers.
\<close>

subsection \<open>Data\<close>

text \<open>
  Of a request the plugin reads \<open>Host\<close>, the result of \<open>URL.RequestURI()\<close> and the headers.
\<close>

record request =
  Host :: string
  RequestURI :: string
  Header :: Header

record Config =
  Regex :: "string list"
  SilentStartUp :: bool
  StatusCode :: int

record Config_ip = Config +
  AllowLocalRequests :: bool

record Config_substr = Config +
  MatchStrings :: "string list"

record Config_exact = Config +
  ExactMatch :: "string list"

record ('r, 'h) traefik_block_regex_urls =
  nextHandler :: 'h
  name :: string
  regexps :: "'r list"
  silentStartUp :: bool
  statusCode :: int

record ('r, 'h) traefik_block_regex_urls_ip = "('r, 'h) traefik_block_regex_urls" +
  allowLocalRequests :: bool
  privateIPRanges :: "IPNet list"

record ('r, 'h) traefik_block_regex_urls_substr = "('r, 'h) traefik_block_regex_urls" +
  matchStrings :: "string list"

record ('r, 'h) traefik_block_regex_urls_exact = "('r, 'h) traefik_block_regex_urls" +
  exactMatch :: "string list"

text \<open>Errors: of \<open>ParseIP\<close>, of \<open>CollectRemoteIP\<close> (which wraps the former) and of \<open>New\<close>.\<close>

datatype ip_error = UnableToParseIP string

datatype collect_error = ParsingFailed ip_error

datatype new_error = EmptyRegexList | CompileError string | Panic string

text \<open>
  What a call does besides returning is a list of events in the order they happen: a line
  written to the log, a regular expression run on a string, a status code written to the
  response, the request handed to the next handler.
\<close>

datatype log_entry =
    LogRegexList "string list"
  | LogMatchStringList "string list"
  | LogExactMatchList "string list"
  | LogStatusCode int
  | LogFullURL string
  | LogCollectFailed
  | LogError collect_error
  | LogDenied string request "IP list"
  | LogBlockedSubstring string string
  | LogBlockedExact string string
  | LogBlockedRegex string string

datatype ('r, 'h) event =
    Log log_entry
  | MatchString 'r string
  | WriteHeader int
  | NextServeHTTP 'h request

fun status_writes :: "('r, 'h) event list \<Rightarrow> int list" where
  "status_writes [] = []"
| "status_writes (WriteHeader code # es) = code # status_writes es"
| "status_writes (e # es) = status_writes es"

fun next_calls :: "('r, 'h) event list \<Rightarrow> ('h \<times> request) list" where
  "next_calls [] = []"
| "next_calls (NextServeHTTP h req # es) = (h, req) # next_calls es"
| "next_calls (e # es) = next_calls es"

fun regex_evals :: "('r, 'h) event list \<Rightarrow> ('r \<times> string) list" where
  "regex_evals [] = []"
| "regex_evals (MatchString r s # es) = (r, s) # regex_evals es"
| "regex_evals (e # es) = regex_evals es"

subsection \<open>Private addresses\<close>

text \<open>
  \<open>InitializePrivateIPBlocks\<close> parses eight CIDR strings and panics on the first that does
  not parse: \<open>Inl\<close> carries that string.
\<close>

fun InitializePrivateIPBlocks_loop :: "string list \<Rightarrow> IPNet list \<Rightarrow> string + IPNet list" where
  "InitializePrivateIPBlocks_loop [] privateIPBlocks = Inr privateIPBlocks"
| "InitializePrivateIPBlocks_loop (cidr # rest) privateIPBlocks =
     (case net_ParseCIDR cidr of
        None \<Rightarrow> Inl cidr
      | Some (ip, block) \<Rightarrow> InitializePrivateIPBlocks_loop rest (privateIPBlocks @ [block]))"

definition InitializePrivateIPBlocks :: "string + IPNet list" where
  "InitializePrivateIPBlocks =
     InitializePrivateIPBlocks_loop
       [''127.0.0.0/8'', ''10.0.0.0/8'', ''172.16.0.0/12'', ''192.168.0.0/16'',
        ''169.254.0.0/16'', ''::1/128'', ''fe80::/10'', ''fc00::/7''] []"

fun IsIpInList :: "IP \<Rightarrow> IPNet list \<Rightarrow> bool" where
  "IsIpInList ip [] = False"
| "IsIpInList ip (block # rest) = (if IPNet_Contains block ip then True else IsIpInList ip rest)"

definition IsPrivateIP :: "IP \<Rightarrow> IPNet list \<Rightarrow> bool" where
  "IsPrivateIP ip privateIPBlocks =
     (if IsLoopback ip \<or> IsLinkLocalUnicast ip \<or> IsLinkLocalMulticast ip then True
      else IsIpInList ip privateIPBlocks)"

definition ParseIP :: "string \<Rightarrow> ip_error + IP" where
  "ParseIP address =
     (case net_ParseIP address of
        None \<Rightarrow> Inl (UnableToParseIP address)
      | Some ipAddress \<Rightarrow> Inr ipAddress)"

subsection \<open>Reading the forwarding headers\<close>

text \<open>
  Each of the two loops of \<open>CollectRemoteIP\<close> appends the parsed addresses to \<open>ipList\<close> and
  returns the list built so far with an error at the first value that does not parse.
\<close>

fun CollectRemoteIP_loop :: "string list \<Rightarrow> IP list \<Rightarrow> IP list \<times> collect_error option" where
  "CollectRemoteIP_loop [] ipList = (ipList, None)"
| "CollectRemoteIP_loop (v # rest) ipList =
     (case ParseIP v of
        Inl err \<Rightarrow> (ipList, Some (ParsingFailed err))
      | Inr ipAddress \<Rightarrow> CollectRemoteIP_loop rest (ipList @ [ipAddress]))"

definition splitFn :: "char \<Rightarrow> bool" where
  "splitFn c = (c = CHR '','')"

definition CollectRemoteIP :: "request \<Rightarrow> IP list \<times> collect_error option" where
  "CollectRemoteIP req =
     (let xForwardedForValue = Header_Get (Header req) ''X-Forwarded-For'';
          xForwardedForIPs = FieldsFunc xForwardedForValue splitFn
      in case CollectRemoteIP_loop xForwardedForIPs [] of
           (ipList, Some err) \<Rightarrow> (ipList, Some err)
         | (ipList, None) \<Rightarrow>
             (let xRealIpValue = Header_Get (Header req) ''X-Real-IP'';
                  xRealIpIPs = FieldsFunc xRealIpValue splitFn
              in CollectRemoteIP_loop xRealIpIPs ipList))"

subsection \<open>Construction\<close>

text \<open>
  The loop of \<open>New\<close> compiles the patterns in order and returns at the first that does not
  compile. \<open>New\<close> returns the lines it logs and either an error or the struct; the unused
  context argument is left out.
\<close>

fun compile_loop :: "(string \<Rightarrow> 'r option) \<Rightarrow> string list \<Rightarrow> new_error + 'r list" where
  "compile_loop compile [] = Inr []"
| "compile_loop compile (regex # rest) =
     (case compile regex of
        None \<Rightarrow> Inl (CompileError regex)
      | Some compiledRegex \<Rightarrow>
          (case compile_loop compile rest of
             Inl err \<Rightarrow> Inl err
           | Inr compiled \<Rightarrow> Inr (compiledRegex # compiled)))"

text \<open>\<open>CreateConfig\<close> of each revision: the configuration before the user's settings.\<close>

definition CreateConfig_ip :: Config_ip where
  "CreateConfig_ip =
     \<lparr>Regex = [], SilentStartUp = True, StatusCode = 403, AllowLocalRequests = True\<rparr>"

definition CreateConfig_substr :: Config_substr where
  "CreateConfig_substr =
     \<lparr>Regex = [], SilentStartUp = True, StatusCode = 403, MatchStrings = []\<rparr>"

definition CreateConfig_exact :: Config_exact where
  "CreateConfig_exact =
     \<lparr>Regex = [], SilentStartUp = True, StatusCode = 403, ExactMatch = []\<rparr>"

definition New_ip ::
  "(string \<Rightarrow> 'r option) \<Rightarrow> 'h \<Rightarrow> Config_ip \<Rightarrow> string
   \<Rightarrow> log_entry list \<times> (new_error + ('r, 'h) traefik_block_regex_urls_ip)" where
  "New_ip compile nxt config nm =
     (if length (Regex config) = 0 then ([], Inl EmptyRegexList)
      else
        (let logs = (if \<not> SilentStartUp config
                     then [LogRegexList (Regex config), LogStatusCode (StatusCode config)]
                     else [])
         in case compile_loop compile (Regex config) of
              Inl err \<Rightarrow> (logs, Inl err)
            | Inr rs \<Rightarrow>
                (case InitializePrivateIPBlocks of
                   Inl cidr \<Rightarrow> (logs, Inl (Panic cidr))
                 | Inr blocks \<Rightarrow>
                     (logs, Inr \<lparr>nextHandler = nxt, name = nm, regexps = rs,
                                 silentStartUp = SilentStartUp config,
                                 statusCode = StatusCode config,
                                 allowLocalRequests = AllowLocalRequests config,
                                 privateIPRanges = blocks\<rparr>))))"

definition New_substr ::
  "(string \<Rightarrow> 'r option) \<Rightarrow> 'h \<Rightarrow> Config_substr \<Rightarrow> string
   \<Rightarrow> log_entry list \<times> (new_error + ('r, 'h) traefik_block_regex_urls_substr)" where
  "New_substr compile nxt config nm =
     (let logs = (if \<not> SilentStartUp config
                  then [LogRegexList (Regex config), LogMatchStringList (MatchStrings config),
                        LogStatusCode (StatusCode config)]
                  else [])
      in case compile_loop compile (Regex config) of
           Inl err \<Rightarrow> (logs, Inl err)
         | Inr rs \<Rightarrow>
             (logs, Inr \<lparr>nextHandler = nxt, name = nm, regexps = rs,
                         silentStartUp = SilentStartUp config,
                         statusCode = StatusCode config,
                         matchStrings = MatchStrings config\<rparr>))"

definition New_exact ::
  "(string \<Rightarrow> 'r option) \<Rightarrow> 'h \<Rightarrow> Config_exact \<Rightarrow> string
   \<Rightarrow> log_entry list \<times> (new_error + ('r, 'h) traefik_block_regex_urls_exact)" where
  "New_exact compile nxt config nm =
     (let logs = (if \<not> SilentStartUp config
                  then [LogRegexList (Regex config), LogExactMatchList (ExactMatch config),
                        LogStatusCode (StatusCode config)]
                  else [])
      in case compile_loop compile (Regex config) of
           Inl err \<Rightarrow> (logs, Inl err)
         | Inr rs \<Rightarrow>
             (logs, Inr \<lparr>nextHandler = nxt, name = nm, regexps = rs,
                         silentStartUp = SilentStartUp config,
                         statusCode = StatusCode config,
                         exactMatch = ExactMatch config\<rparr>))"

subsection \<open>Handling a request\<close>

definition fullUrl :: "request \<Rightarrow> string" where
  "fullUrl req = Host req @ RequestURI req"

text \<open>
  The revision with the exemption. The inner loop folds \<open>IsPrivateIP\<close> over the collected
  addresses into \<open>isPrivateIp\<close>, which starts as true, and leaves at the first address that
  is not private. The outer loop runs over the regular expressions; a match either ends the
  call with the status code or, when the addresses are exempt, lets the loop go on.
\<close>

fun isPrivateIp_loop :: "IPNet list \<Rightarrow> IP list \<Rightarrow> bool \<Rightarrow> bool" where
  "isPrivateIp_loop blocks [] isPrivateIp = isPrivateIp"
| "isPrivateIp_loop blocks (ipAddress # rest) isPrivateIp =
     (let isPrivateIp' = (IsPrivateIP ipAddress blocks \<and> isPrivateIp)
      in if \<not> isPrivateIp' then isPrivateIp' else isPrivateIp_loop blocks rest isPrivateIp')"

fun ServeHTTP_ip_loop ::
  "('r \<Rightarrow> string \<Rightarrow> bool) \<Rightarrow> ('r, 'h) traefik_block_regex_urls_ip \<Rightarrow> request \<Rightarrow> 'r list
   \<Rightarrow> ('r, 'h) event list" where
  "ServeHTTP_ip_loop matchString blockUrls req [] = [NextServeHTTP (nextHandler blockUrls) req]"
| "ServeHTTP_ip_loop matchString blockUrls req (regex # rest) =
     MatchString regex (fullUrl req) #
     (if matchString regex (fullUrl req) then
        (case CollectRemoteIP req of
           (ipAddresses, err) \<Rightarrow>
             (case err of
                None \<Rightarrow> []
              | Some e \<Rightarrow> [Log LogCollectFailed, Log (LogError e)]) @
             (if \<not> allowLocalRequests blockUrls then
                [Log (LogDenied (name blockUrls) req ipAddresses),
                 WriteHeader (statusCode blockUrls)]
              else if \<not> isPrivateIp_loop (privateIPRanges blockUrls) ipAddresses True then
                [Log (LogDenied (name blockUrls) req ipAddresses),
                 WriteHeader (statusCode blockUrls)]
              else ServeHTTP_ip_loop matchString blockUrls req rest))
      else ServeHTTP_ip_loop matchString blockUrls req rest)"

definition ServeHTTP_ip ::
  "('r \<Rightarrow> string \<Rightarrow> bool) \<Rightarrow> ('r, 'h) traefik_block_regex_urls_ip \<Rightarrow> request
   \<Rightarrow> ('r, 'h) event list" where
  "ServeHTTP_ip matchString blockUrls req =
     Log (LogFullURL (fullUrl req)) #
     ServeHTTP_ip_loop matchString blockUrls req (regexps blockUrls)"

text \<open>
  The two later revisions share the loop over the regular expressions: the first match
  writes the status code and returns.
\<close>

fun ServeHTTP_regex_loop ::
  "('r \<Rightarrow> string \<Rightarrow> bool) \<Rightarrow> ('r, 'h, 'z) traefik_block_regex_urls_scheme \<Rightarrow> request \<Rightarrow> 'r list
   \<Rightarrow> ('r, 'h) event list" where
  "ServeHTTP_regex_loop matchString blockUrls req [] =
     [NextServeHTTP (nextHandler blockUrls) req]"
| "ServeHTTP_regex_loop matchString blockUrls req (regex # rest) =
     MatchString regex (fullUrl req) #
     (if matchString regex (fullUrl req) then
        [Log (LogBlockedRegex (fullUrl req) (name blockUrls)), WriteHeader (statusCode blockUrls)]
      else ServeHTTP_regex_loop matchString blockUrls req rest)"

fun ServeHTTP_substr_loop ::
  "('r \<Rightarrow> string \<Rightarrow> bool) \<Rightarrow> ('r, 'h) traefik_block_regex_urls_substr \<Rightarrow> request \<Rightarrow> string list
   \<Rightarrow> ('r, 'h) event list" where
  "ServeHTTP_substr_loop matchString blockUrls req [] =
     ServeHTTP_regex_loop matchString blockUrls req (regexps blockUrls)"
| "ServeHTTP_substr_loop matchString blockUrls req (str # rest) =
     (if strings_Contains (fullUrl req) str then
        [Log (LogBlockedSubstring (fullUrl req) (name blockUrls)),
         WriteHeader (statusCode blockUrls)]
      else ServeHTTP_substr_loop matchString blockUrls req rest)"

definition ServeHTTP_substr ::
  "('r \<Rightarrow> string \<Rightarrow> bool) \<Rightarrow> ('r, 'h) traefik_block_regex_urls_substr \<Rightarrow> request
   \<Rightarrow> ('r, 'h) event list" where
  "ServeHTTP_substr matchString blockUrls req =
     ServeHTTP_substr_loop matchString blockUrls req (matchStrings blockUrls)"

definition ServeHTTP_exact ::
  "('r \<Rightarrow> string \<Rightarrow> bool) \<Rightarrow> ('r, 'h) traefik_block_regex_urls_exact \<Rightarrow> request
   \<Rightarrow> ('r, 'h) event list" where
  "ServeHTTP_exact matchString blockUrls req =
     (if slices_Contains (exactMatch blockUrls) (fullUrl req) then
        [Log (LogBlockedExact (fullUrl req) (name blockUrls)), WriteHeader (statusCode blockUrls)]
      else ServeHTTP_regex_loop matchString blockUrls req (regexps blockUrls))"

subsection \<open>A regular-expression engine for concrete inputs\<close>

text \<open>
  The theorems below hold for every \<open>compile\<close> and \<open>matchString\<close>. Where they are applied
  to a concrete request, the patterns are taken from a fragment on which the behaviour of
  Go's \<open>regexp\<close> package is plain: a pattern of letters, digits, \<open>/\<close>, \<open>-\<close> and \<open>_\<close> compiles
  and matches exactly the strings that contain it; the pattern \<open>(\<close> does not compile.
  \<open>lit_compile\<close> refuses everything else, and is used on this fragment only.
\<close>

definition lit_char :: "char \<Rightarrow> bool" where
  "lit_char c =
     ((CHR ''a'' \<le> c \<and> c \<le> CHR ''z'') \<or> (CHR ''A'' \<le> c \<and> c \<le> CHR ''Z'')
      \<or> (CHR ''0'' \<le> c \<and> c \<le> CHR ''9'') \<or> c = CHR ''/'' \<or> c = CHR ''-'' \<or> c = CHR ''_'')"

definition lit_compile :: "string \<Rightarrow> string option" where
  "lit_compile p = (if list_all lit_char p then Some p else None)"

definition lit_matchString :: "string \<Rightarrow> string \<Rightarrow> bool" where
  "lit_matchString p s = strings_Contains s p"

section \<open>Notions used to state the properties\<close>

text \<open>
  The tokens of a forwarding header: the pieces \<open>CollectRemoteIP\<close> cuts its value into.
\<close>

definition header_tokens :: "request \<Rightarrow> string \<Rightarrow> string list" where
  "header_tokens req key = FieldsFunc (Header_Get (Header req) key) splitFn"

text \<open>
  What the description of \<open>CollectRemoteIP\<close> says of a list of tokens: the addresses of the
  tokens before the first one that is not an address, and that token if there is one.
\<close>

fun parsed_prefix :: "string list \<Rightarrow> IP list" where
  "parsed_prefix [] = []"
| "parsed_prefix (t # ts) =
     (case net_ParseIP t of None \<Rightarrow> [] | Some ip \<Rightarrow> ip # parsed_prefix ts)"

fun first_bad :: "string list \<Rightarrow> string option" where
  "first_bad [] = None"
| "first_bad (t # ts) = (case net_ParseIP t of None \<Rightarrow> Some t | Some ip \<Rightarrow> first_bad ts)"

text \<open>
  The condition under which the revision with the exemption answers a matching request
  with the status code: the exemption is switched off or a collected address is not private.
\<close>

abbreviation denies :: "('r, 'h) traefik_block_regex_urls_ip \<Rightarrow> request \<Rightarrow> bool" where
  "denies b req \<equiv>
     (\<not> allowLocalRequests b
      \<or> (\<exists>ip \<in> set (fst (CollectRemoteIP req)). \<not> IsPrivateIP ip (privateIPRanges b)))"

text \<open>The characters that occur in the text of an address.\<close>

definition addr_char :: "char \<Rightarrow> bool" where
  "addr_char c = (hex_val c \<noteq> None \<or> c = CHR ''.'' \<or> c = CHR '':'')"

subsection \<open>Concrete configurations and requests\<close>

text \<open>
  The table \<open>InitializePrivateIPBlocks\<close> computes (lemma \<open>InitializePrivateIPBlocks_table\<close>
  below), a configuration with one pattern, the struct \<open>New\<close> builds from it, and requests
  to \<open>localhost\<close> that do and do not match the pattern.
\<close>

definition private_table :: "IPNet list" where
  "private_table =
     [\<lparr>IP = [127, 0, 0, 0], Mask = [255, 0, 0, 0]\<rparr>,
      \<lparr>IP = [10, 0, 0, 0], Mask = [255, 0, 0, 0]\<rparr>,
      \<lparr>IP = [172, 16, 0, 0], Mask = [255, 240, 0, 0]\<rparr>,
      \<lparr>IP = [192, 168, 0, 0], Mask = [255, 255, 0, 0]\<rparr>,
      \<lparr>IP = [169, 254, 0, 0], Mask = [255, 255, 0, 0]\<rparr>,
      \<lparr>IP = [0, 0, 0, 0, 0, 0, 0, 0, 0, 0, 0, 0, 0, 0, 0, 1],
       Mask = [255, 255, 255, 255, 255, 255, 255, 255, 255, 255, 255, 255, 255, 255, 255, 255]\<rparr>,
      \<lparr>IP = [254, 128, 0, 0, 0, 0, 0, 0, 0, 0, 0, 0, 0, 0, 0, 0],
       Mask = [255, 192, 0, 0, 0, 0, 0, 0, 0, 0, 0, 0, 0, 0, 0, 0]\<rparr>,
      \<lparr>IP = [252, 0, 0, 0, 0, 0, 0, 0, 0, 0, 0, 0, 0, 0, 0, 0],
       Mask = [254, 0, 0, 0, 0, 0, 0, 0, 0, 0, 0, 0, 0, 0, 0, 0]\<rparr>]"

definition wp_config :: Config_ip where
  "wp_config = \<lparr>Regex = [''/wp-''], SilentStartUp = True, StatusCode = 404,
                 AllowLocalRequests = True\<rparr>"

definition wp_blockUrls :: "(string, string) traefik_block_regex_urls_ip" where
  "wp_blockUrls =
     \<lparr>nextHandler = ''next'', name = ''BlockUrls'', regexps = [''/wp-''],
      silentStartUp = True, statusCode = 404, allowLocalRequests = True,
      privateIPRanges = private_table\<rparr>"

definition wp_request :: "Header \<Rightarrow> request" where
  "wp_request h = \<lparr>Host = ''localhost'', RequestURI = ''/wp-login'', Header = h\<rparr>"

definition index_request :: "Header \<Rightarrow> request" where
  "index_request h = \<lparr>Host = ''localhost'', RequestURI = ''/index.html'', Header = h\<rparr>"

text \<open>
  Structs of the two later revisions, after the test data of the plugin manifest (status
  418, the literal rule \<open>something\<close>), and a request that their literal rules match.
\<close>

definition sub_blockUrls :: "(string, string) traefik_block_regex_urls_substr" where
  "sub_blockUrls =
     \<lparr>nextHandler = ''next'', name = ''BlockUrls'', regexps = [''/wp-''],
      silentStartUp = True, statusCode = 418, matchStrings = [''something'']\<rparr>"

definition exact_blockUrls :: "(string, string) traefik_block_regex_urls_exact" where
  "exact_blockUrls =
     \<lparr>nextHandler = ''next'', name = ''BlockUrls'', regexps = [''/wp-''],
      silentStartUp = True, statusCode = 418, exactMatch = [''localhost/something'']\<rparr>"

definition something_request :: "Header \<Rightarrow> request" where
  "something_request h = \<lparr>Host = ''localhost'', RequestURI = ''/something'', Header = h\<rparr>"

text \<open>Configurations whose second pattern does not compile, one for each revision.\<close>

definition bad_config_ip :: Config_ip where
  "bad_config_ip = \<lparr>Regex = [''/wp-'', ''(''], SilentStartUp = True, StatusCode = 403,
                     AllowLocalRequests = True\<rparr>"

definition bad_config_substr :: Config_substr where
  "bad_config_substr = \<lparr>Regex = [''/wp-'', ''(''], SilentStartUp = True, StatusCode = 403,
                         MatchStrings = [''something'']\<rparr>"

definition bad_config_exact :: Config_exact where
  "bad_config_exact = \<lparr>Regex = [''/wp-'', ''(''], SilentStartUp = True, StatusCode = 403,
                        ExactMatch = [''something'']\<rparr>"

text \<open>Headers whose first list has a value in the middle that is not an address.\<close>

definition partial_headers :: Header where
  "partial_headers = [(''X-Forwarded-For'', [''10.0.0.1,unknown,2.56.20.0'']),
                      (''X-Real-Ip'', [''2.56.20.0''])]"

section \<open>Auxiliary lemmas\<close>

subsection \<open>Traces and the loops of \<open>ServeHTTP\<close>\<close>

lemma status_writes_append: "status_writes (xs @ ys) = status_writes xs @ status_writes ys"
  by (induction xs rule: status_writes.induct) simp_all

lemma next_calls_append: "next_calls (xs @ ys) = next_calls xs @ next_calls ys"
  by (induction xs rule: next_calls.induct) simp_all

lemma regex_evals_append: "regex_evals (xs @ ys) = regex_evals xs @ regex_evals ys"
  by (induction xs rule: regex_evals.induct) simp_all

lemma isPrivateIp_loop_all:
  "isPrivateIp_loop blocks ips acc = (acc \<and> (\<forall>ip \<in> set ips. IsPrivateIP ip blocks))"
  by (induction ips arbitrary: acc) (auto simp: Let_def)

lemma IsIpInList_iff: "IsIpInList ip blocks = (\<exists>block \<in> set blocks. IPNet_Contains block ip)"
  by (induction blocks) auto

lemma IsPrivateIP_iff:
  "IsPrivateIP ip blocks =
     (IsLoopback ip \<or> IsLinkLocalUnicast ip \<or> IsLinkLocalMulticast ip
      \<or> (\<exists>block \<in> set blocks. IPNet_Contains block ip))"
  by (simp add: IsPrivateIP_def IsIpInList_iff)

lemma errlog_writes: "status_writes ((case err of None \<Rightarrow> [] | Some e \<Rightarrow> [Log LogCollectFailed, Log (LogError e)]) @ xs) = status_writes xs"
  by (cases err) simp_all
lemma errlog_calls: "next_calls ((case err of None \<Rightarrow> [] | Some e \<Rightarrow> [Log LogCollectFailed, Log (LogError e)]) @ xs) = next_calls xs"
  by (cases err) simp_all

lemma ServeHTTP_ip_loop_writes:
  "status_writes (ServeHTTP_ip_loop ms b req rs) =
     (if (\<exists>r \<in> set rs. ms r (fullUrl req)) \<and> denies b req then [statusCode b] else [])"
proof (induction rs)
  case Nil
  then show ?case by simp
next
  case (Cons r rs)
  obtain ips err where c: "CollectRemoteIP req = (ips, err)" by (cases "CollectRemoteIP req")
  show ?case
  proof (cases "ms r (fullUrl req)")
    case False
    with Cons show ?thesis by simp
  next
    case True
    show ?thesis
    proof (cases "denies b req")
      case True
      with \<open>ms r (fullUrl req)\<close> c show ?thesis
        by (auto simp: isPrivateIp_loop_all errlog_writes)
    next
      case False
      with \<open>ms r (fullUrl req)\<close> c Cons show ?thesis
        by (auto simp: isPrivateIp_loop_all errlog_writes)
    qed
  qed
qed

lemma ServeHTTP_ip_loop_calls:
  "next_calls (ServeHTTP_ip_loop ms b req rs) =
     (if (\<exists>r \<in> set rs. ms r (fullUrl req)) \<and> denies b req then [] else [(nextHandler b, req)])"
proof (induction rs)
  case Nil
  then show ?case by simp
next
  case (Cons r rs)
  obtain ips err where c: "CollectRemoteIP req = (ips, err)" by (cases "CollectRemoteIP req")
  show ?case
  proof (cases "ms r (fullUrl req)")
    case False
    with Cons show ?thesis by simp
  next
    case True
    show ?thesis
    proof (cases "denies b req")
      case True
      with \<open>ms r (fullUrl req)\<close> c show ?thesis
        by (auto simp: isPrivateIp_loop_all errlog_calls)
    next
      case False
      with \<open>ms r (fullUrl req)\<close> c Cons show ?thesis
        by (auto simp: isPrivateIp_loop_all errlog_calls)
    qed
  qed
qed

lemma ServeHTTP_regex_loop_writes:
  "status_writes (ServeHTTP_regex_loop ms b req rs) =
     (if \<exists>r \<in> set rs. ms r (fullUrl req) then [statusCode b] else [])"
  by (induction rs) auto

lemma ServeHTTP_regex_loop_calls:
  "next_calls (ServeHTTP_regex_loop ms b req rs) =
     (if \<exists>r \<in> set rs. ms r (fullUrl req) then [] else [(nextHandler b, req)])"
  by (induction rs) auto

lemma ServeHTTP_substr_loop_writes:
  "status_writes (ServeHTTP_substr_loop ms b req strs) =
     (if (\<exists>str \<in> set strs. strings_Contains (fullUrl req) str) \<or> (\<exists>r \<in> set (regexps b). ms r (fullUrl req))
      then [statusCode b] else [])"
  by (induction strs) (auto simp: ServeHTTP_regex_loop_writes)

lemma ServeHTTP_substr_loop_calls:
  "next_calls (ServeHTTP_substr_loop ms b req strs) =
     (if (\<exists>str \<in> set strs. strings_Contains (fullUrl req) str) \<or> (\<exists>r \<in> set (regexps b). ms r (fullUrl req))
      then [] else [(nextHandler b, req)])"
  by (induction strs) (auto simp: ServeHTTP_regex_loop_calls)

lemma ServeHTTP_substr_loop_evals:
  "\<exists>str \<in> set strs. strings_Contains (fullUrl req) str \<Longrightarrow> regex_evals (ServeHTTP_substr_loop ms b req strs) = []"
  by (induction strs) auto

subsection \<open>Compiling the patterns\<close>

lemma compile_loop_Inr:
  "compile_loop compile rs = Inr cs \<Longrightarrow> map compile rs = map Some cs"
  by (induction rs arbitrary: cs) (auto split: option.splits sum.splits)

lemma compile_loop_Inl:
  "compile_loop compile rs = Inl e \<Longrightarrow> \<exists>regex \<in> set rs. compile regex = None \<and> e = CompileError regex"
  by (induction rs) (auto split: option.splits sum.splits)

lemma compile_loop_Inr_all:
  "compile_loop compile rs = Inr cs \<Longrightarrow> regex \<in> set rs \<Longrightarrow> compile regex \<noteq> None"
  by (induction rs arbitrary: cs) (auto split: option.splits sum.splits)

lemma compile_loop_fails:
  assumes "\<exists>regex \<in> set rs. compile regex = None"
  shows "\<exists>regex \<in> set rs. compile regex = None \<and> compile_loop compile rs = Inl (CompileError regex)"
proof (cases "compile_loop compile rs")
  case (Inl e)
  from compile_loop_Inl [OF Inl] obtain regex
    where "regex \<in> set rs" "compile regex = None" "e = CompileError regex" by blast
  with Inl show ?thesis by blast
next
  case (Inr cs)
  from assms obtain regex where "regex \<in> set rs" "compile regex = None" by blast
  with compile_loop_Inr_all [OF Inr] show ?thesis by blast
qed

subsection \<open>Cutting strings\<close>

lemma strings_Contains_iff: "strings_Contains s substr = (\<exists>p q. s = p @ substr @ q)"
proof (induction s)
  case Nil
  then show ?case by auto
next
  case (Cons c cs)
  show ?case
  proof
    assume "strings_Contains (c # cs) substr"
    then consider "prefix substr (c # cs)" | "strings_Contains cs substr" by auto
    then show "\<exists>p q. c # cs = p @ substr @ q"
    proof cases
      case 1
      then obtain q where "c # cs = substr @ q" by (auto simp: prefix_def)
      then have "c # cs = [] @ substr @ q" by simp
      then show ?thesis by blast
    next
      case 2
      with Cons obtain p q where "cs = p @ substr @ q" by auto
      then have "c # cs = (c # p) @ substr @ q" by simp
      then show ?thesis by blast
    qed
  next
    assume "\<exists>p q. c # cs = p @ substr @ q"
    then obtain p q where pq: "c # cs = p @ substr @ q" by auto
    show "strings_Contains (c # cs) substr"
    proof (cases p)
      case Nil
      with pq have "prefix substr (c # cs)" by (simp add: prefix_def)
      then show ?thesis by simp
    next
      case (Cons a p')
      with pq have "cs = p' @ substr @ q" by simp
      with Cons.IH have "strings_Contains cs substr" by blast
      then show ?thesis by simp
    qed
  qed
qed

lemma FieldsFunc_loop_field:
  "\<forall>c \<in> set t. \<not> f c \<Longrightarrow> FieldsFunc_loop f cur (t @ rest) = FieldsFunc_loop f (cur @ t) rest"
  by (induction t arbitrary: cur) auto

lemma FieldsFunc_loop_end:
  "\<forall>c \<in> set t. \<not> f c \<Longrightarrow> cur @ t \<noteq> [] \<Longrightarrow> FieldsFunc_loop f cur t = [cur @ t]"
  using FieldsFunc_loop_field [of t f cur "[]"] by simp

lemma FieldsFunc_loop_Join:
  assumes "\<forall>t \<in> set ts. t \<noteq> [] \<and> CHR '','' \<notin> set t"
  shows "FieldsFunc_loop splitFn [] (strings_Join ts '','') = ts"
  using assms
proof (induction ts "'',''" rule: strings_Join.induct)
  case 1
  then show ?case by simp
next
  case (2 e)
  then have "\<forall>c \<in> set e. \<not> splitFn c" "[] @ e \<noteq> []" by (auto simp: splitFn_def)
  then show ?case using FieldsFunc_loop_end [of e splitFn "[]"] by simp
next
  case (3 e v va)
  then have e: "\<forall>c \<in> set e. \<not> splitFn c" "e \<noteq> []" by (auto simp: splitFn_def)
  from 3 have IH: "FieldsFunc_loop splitFn [] (strings_Join (v # va) '','') = v # va" by simp
  have "FieldsFunc_loop splitFn [] (e @ '','' @ strings_Join (v # va) '','')
        = FieldsFunc_loop splitFn ([] @ e) ('','' @ strings_Join (v # va) '','')"
    using e(1) by (rule FieldsFunc_loop_field)
  also have "\<dots> = e # FieldsFunc_loop splitFn [] (strings_Join (v # va) '','')"
    using e(2) by (simp add: splitFn_def)
  finally show ?case using IH by simp
qed

lemma FieldsFunc_Join:
  "\<forall>t \<in> set ts. t \<noteq> [] \<and> CHR '','' \<notin> set t \<Longrightarrow> FieldsFunc (strings_Join ts '','') splitFn = ts"
  by (simp add: FieldsFunc_def FieldsFunc_loop_Join)

subsection \<open>The characters of an address\<close>

lemma is_digit_hex: "is_digit c \<Longrightarrow> hex_val c \<noteq> None"
  by (simp add: is_digit_def hex_val_def)

lemma parseIPv4Fields_loop_chars:
  "parseIPv4Fields_loop s first prevdot val digLen parts = Some r \<Longrightarrow> \<forall>c \<in> set s. addr_char c"
  by (induction s first prevdot val digLen parts rule: parseIPv4Fields_loop.induct)
     (auto simp: addr_char_def is_digit_hex Let_def split: if_splits)

lemma hexGroup_chars:
  "hexGroup s off acc = Some (off', acc', rest) \<Longrightarrow> \<exists>pre. s = pre @ rest \<and> (\<forall>c \<in> set pre. addr_char c) \<and> length pre = off' - off \<and> off \<le> off'"
proof (induction s off acc rule: hexGroup.induct)
  case (1 off acc)
  then show ?case by simp
next
  case (2 c cs off acc)
  show ?case
  proof (cases "hex_val c")
    case None
    with 2 show ?thesis by simp
  next
    case (Some d)
    with 2 have ok: "\<not> off > 3" "\<not> acc * 16 + d > 65535" and h: "hexGroup cs (off + 1) (acc * 16 + d) = Some (off', acc', rest)"
      by (auto simp: Let_def split: if_splits)
    from 2(1) [OF Some refl ok h] obtain pre where "cs = pre @ rest" "\<forall>c \<in> set pre. addr_char c" "length pre = off' - (off + 1)" "off + 1 \<le> off'" by blast
    with Some have "c # cs = (c # pre) @ rest \<and> (\<forall>c \<in> set (c # pre). addr_char c) \<and> length (c # pre) = off' - off \<and> off \<le> off'"
      by (auto simp: addr_char_def)
    then show ?thesis by blast
  qed
qed

lemma parseIPv4Fields_chars: "parseIPv4Fields s = Some r \<Longrightarrow> \<forall>c \<in> set s. addr_char c"
  unfolding parseIPv4Fields_def by (rule parseIPv4Fields_loop_chars)

lemma parseIPv6_loop_full: "\<not> length ip < 16 \<Longrightarrow> parseIPv6_loop s ip ell = Some (s, ip, ell)"
  by (subst parseIPv6_loop.simps) simp

lemma parseIPv6_loop_nogroup:
  "length ip < 16 \<Longrightarrow> hexGroup s 0 0 = None \<or> (\<exists>acc rest. hexGroup s 0 0 = Some (0, acc, rest))
   \<Longrightarrow> parseIPv6_loop s ip ell = None"
  by (subst parseIPv6_loop.simps) auto

lemma parseIPv6_loop_dot:
  "length ip < 16 \<Longrightarrow> hexGroup s 0 0 = Some (off, acc, CHR ''.'' # r) \<Longrightarrow> off \<noteq> 0 \<Longrightarrow>
   parseIPv6_loop s ip ell =
     (if ell = None \<and> length ip \<noteq> 12 then None
      else if length ip + 4 > 16 then None
      else case parseIPv4Fields s of None \<Rightarrow> None | Some parts \<Rightarrow> Some ([], ip @ parts, ell))"
  by (subst parseIPv6_loop.simps) simp

lemma parseIPv6_loop_end:
  "length ip < 16 \<Longrightarrow> hexGroup s 0 0 = Some (off, acc, []) \<Longrightarrow> off \<noteq> 0 \<Longrightarrow>
   parseIPv6_loop s ip ell = Some ([], ip @ [of_nat (acc div 256), of_nat (acc mod 256)], ell)"
  by (subst parseIPv6_loop.simps) (simp add: Let_def)

lemma parseIPv6_loop_other:
  "length ip < 16 \<Longrightarrow> hexGroup s 0 0 = Some (off, acc, c # r) \<Longrightarrow> off \<noteq> 0 \<Longrightarrow>
   c \<noteq> CHR ''.'' \<Longrightarrow> c \<noteq> CHR '':'' \<or> r = [] \<Longrightarrow> parseIPv6_loop s ip ell = None"
  by (subst parseIPv6_loop.simps) (auto simp: Let_def)

lemma parseIPv6_loop_ellipsis:
  "length ip < 16 \<Longrightarrow> hexGroup s 0 0 = Some (off, acc, CHR '':'' # CHR '':'' # s2) \<Longrightarrow> off \<noteq> 0 \<Longrightarrow>
   parseIPv6_loop s ip ell =
     (if ell \<noteq> None then None
      else if s2 = [] then Some ([], ip @ [of_nat (acc div 256), of_nat (acc mod 256)], Some (length ip + 2))
      else parseIPv6_loop s2 (ip @ [of_nat (acc div 256), of_nat (acc mod 256)]) (Some (length ip + 2)))"
  by (subst parseIPv6_loop.simps) (simp add: Let_def)

lemma parseIPv6_loop_colon:
  "length ip < 16 \<Longrightarrow> hexGroup s 0 0 = Some (off, acc, CHR '':'' # c1 # s2) \<Longrightarrow> off \<noteq> 0 \<Longrightarrow>
   c1 \<noteq> CHR '':'' \<Longrightarrow>
   parseIPv6_loop s ip ell =
     parseIPv6_loop (c1 # s2) (ip @ [of_nat (acc div 256), of_nat (acc mod 256)]) ell"
  by (subst parseIPv6_loop.simps) (simp add: Let_def)

lemma parseIPv6_loop_chars:
  "parseIPv6_loop s ip ell = Some ([], ip', ell') \<Longrightarrow> \<forall>c \<in> set s. addr_char c"
proof (induction "16 - length ip" arbitrary: s ip ell rule: less_induct)
  case less
  note res = less.prems
  show ?case
  proof (cases "length ip < 16")
    case False
    with res have "s = []" by (simp add: parseIPv6_loop_full)
    then show ?thesis by simp
  next
    case True
    show ?thesis
    proof (cases "hexGroup s 0 0")
      case None
      with res True show ?thesis by (simp add: parseIPv6_loop_nogroup)
    next
      case (Some g)
      then obtain off acc rest where hg: "hexGroup s 0 0 = Some (off, acc, rest)"
        by (cases g) auto
      from hexGroup_chars [OF hg] obtain pre
        where pre: "s = pre @ rest" "\<forall>c \<in> set pre. addr_char c" by blast
      have off: "off \<noteq> 0"
      proof
        assume "off = 0"
        with hg True have "parseIPv6_loop s ip ell = None" by (auto intro: parseIPv6_loop_nogroup)
        with res show False by simp
      qed
      define ip1 where "ip1 = ip @ [of_nat (acc div 256), of_nat (acc mod 256) :: byte]"
      have smaller: "16 - length ip1 < 16 - length ip"
        using True by (simp add: ip1_def)
      show ?thesis
      proof (cases rest)
        case Nil
        with pre show ?thesis by simp
      next
        case (Cons c r)
        show ?thesis
        proof (cases "c = CHR ''.''")
          case True
          with res \<open>length ip < 16\<close> hg off Cons obtain parts where "parseIPv4Fields s = Some parts"
            by (auto simp: parseIPv6_loop_dot split: if_splits option.splits)
          then show ?thesis by (rule parseIPv4Fields_chars)
        next
          case nodot: False
          have c: "c = CHR '':''" and r: "r \<noteq> []"
            using res parseIPv6_loop_other [OF True hg [unfolded Cons] off nodot, of ell] by auto
          then obtain c1 s2 where r2: "r = c1 # s2" by (cases r) auto
          show ?thesis
          proof (cases "c1 = CHR '':''")
            case colon: True
            show ?thesis
            proof (cases "s2 = []")
              case True
              with pre Cons c r2 colon show ?thesis by (auto simp: addr_char_def)
            next
              case s2: False
              have "parseIPv6_loop s2 ip1 (Some (length ip + 2)) = Some ([], ip', ell')"
                using res parseIPv6_loop_ellipsis [OF True hg [unfolded Cons r2 c colon] off, of ell] s2
                by (auto simp: ip1_def split: if_splits)
              then have "\<forall>c \<in> set s2. addr_char c"
                using less.hyps [OF smaller] by blast
              with pre Cons c r2 colon show ?thesis by (auto simp: addr_char_def)
            qed
          next
            case nocolon: False
            have "parseIPv6_loop (c1 # s2) ip1 ell = Some ([], ip', ell')"
              using res parseIPv6_loop_colon [OF True hg [unfolded Cons r2 c] off nocolon, of ell]
              by (simp add: ip1_def)
            then have "\<forall>c \<in> set (c1 # s2). addr_char c"
              using less.hyps [OF smaller] by blast
            with pre Cons c r2 show ?thesis by (auto simp: addr_char_def)
          qed
        qed
      qed
    qed
  qed
qed

lemma takeWhile_all: "x \<notin> set xs \<Longrightarrow> takeWhile (\<lambda>c. c \<noteq> x) xs = xs"
  by (induction xs) auto

lemma parseIPv6_zone:
  assumes "CHR ''%'' \<in> set s" and "parseIPv6 s = Some a"
  shows "Zone a \<noteq> []"
proof -
  define zone where "zone = drop (length (takeWhile (\<lambda>c. c \<noteq> CHR ''%'') s) + 1) s"
  have z: "zone \<noteq> []"
    using assms by (auto simp: parseIPv6_def Let_def zone_def split: if_splits)
  have "Zone a = zone"
    using assms z unfolding parseIPv6_def Let_def zone_def [symmetric]
    by (simp split: if_splits option.splits prod.splits) auto
  with z show ?thesis by simp
qed

lemma parseIPv6_nozone:
  assumes "CHR ''%'' \<notin> set s"
  shows "parseIPv6 s =
    (let lead = (length s \<ge> 2 \<and> s ! 0 = CHR '':'' \<and> s ! 1 = CHR '':'');
         s1 = (if lead then drop 2 s else s);
         ellipsis0 = (if lead then Some 0 else None)
     in if lead \<and> s1 = [] then Some (Addr False (replicate 16 0) [])
        else case parseIPv6_loop s1 [] ellipsis0 of
          None \<Rightarrow> None
        | Some (s', ip, ellipsis) \<Rightarrow>
            if s' \<noteq> [] then None
            else if length ip < 16 then
              (case ellipsis of
                 None \<Rightarrow> None
               | Some e \<Rightarrow> Some (Addr False (take e ip @ replicate (16 - length ip) 0 @ drop e ip) []))
            else if ellipsis \<noteq> None then None
            else Some (Addr False ip []))"
proof -
  have tw: "takeWhile (\<lambda>c. c \<noteq> CHR ''%'') s = s" by (rule takeWhile_all [OF assms])
  have dz: "drop (length s + 1) s = []" by simp
  show ?thesis unfolding parseIPv6_def Let_def tw dz using assms by simp
qed

lemma parseIPv6_chars:
  assumes "parseIPv6 s = Some a" and "Zone a = []"
  shows "\<forall>c \<in> set s. addr_char c"
proof -
  have nz: "CHR ''%'' \<notin> set s" using assms parseIPv6_zone by blast
  note eq = parseIPv6_nozone [OF nz]
  show ?thesis
  proof (cases "length s \<ge> 2 \<and> s ! 0 = CHR '':'' \<and> s ! 1 = CHR '':''")
    case lead: True
    then obtain s1 where s: "s = CHR '':'' # CHR '':'' # s1"
      by (cases s; cases "tl s") auto
    show ?thesis
    proof (cases "s1 = []")
      case True
      with s show ?thesis by (simp add: addr_char_def)
    next
      case False
      with assms(1) s obtain r where r: "parseIPv6_loop s1 [] (Some 0) = Some r"
        unfolding eq by (cases "parseIPv6_loop s1 [] (Some 0)") (auto simp: Let_def)
      obtain s' ip ell where r': "r = (s', ip, ell)" by (cases r)
      from assms(1) s False r r' have "s' = []"
        unfolding eq by (auto simp: Let_def split: if_splits)
      with r r' have "\<forall>c \<in> set s1. addr_char c" using parseIPv6_loop_chars by blast
      with s show ?thesis by (simp add: addr_char_def)
    qed
  next
    case nolead: False
    with assms(1) obtain r where r: "parseIPv6_loop s [] None = Some r"
      unfolding eq by (cases "parseIPv6_loop s [] None") (auto simp: Let_def)
    obtain s' ip ell where r': "r = (s', ip, ell)" by (cases r)
    from assms(1) nolead r r' have "s' = []"
      unfolding eq by (auto simp: Let_def split: if_splits)
    with r r' show ?thesis using parseIPv6_loop_chars by blast
  qed
qed

lemma ParseAddr_scan_chars:
  "ParseAddr_scan s t = Some a \<Longrightarrow> Zone a = [] \<Longrightarrow> \<forall>c \<in> set s. addr_char c"
proof (induction s t rule: ParseAddr_scan.induct)
  case (1 s)
  then show ?case by simp
next
  case (2 s c cs)
  show ?case
  proof (cases "c = CHR ''.''")
    case True
    with 2 obtain f where "parseIPv4Fields s = Some f" by (auto split: option.splits)
    then show ?thesis by (rule parseIPv4Fields_chars)
  next
    case nd: False
    show ?thesis
    proof (cases "c = CHR '':''")
      case True
      with 2 nd have "parseIPv6 s = Some a" by simp
      then show ?thesis using "2.prems"(2) by (rule parseIPv6_chars)
    next
      case False
      with 2 nd show ?thesis by (auto split: if_splits)
    qed
  qed
qed

lemma net_ParseIP_chars:
  assumes "net_ParseIP s = Some ip"
  shows "s \<noteq> [] \<and> (\<forall>c \<in> set s. addr_char c)"
proof -
  from assms obtain a where a: "ParseAddr_scan s s = Some a" "Zone a = []"
    by (auto simp: net_ParseIP_def netip_ParseAddr_def split: option.splits if_splits)
  from a(1) have "s \<noteq> []" by (cases s) auto
  moreover from a have "\<forall>c \<in> set s. addr_char c" by (rule ParseAddr_scan_chars)
  ultimately show ?thesis by simp
qed

lemma addr_char_comma: "\<not> addr_char CHR '',''"
  by (simp add: addr_char_def hex_val_def)

lemma addr_char_space: "\<not> addr_char CHR '' ''"
  by (simp add: addr_char_def hex_val_def)

subsection \<open>Evaluation at concrete inputs\<close>

lemma replicate_numeral: "replicate (numeral k) x = x # replicate (pred_numeral k) x"
  by (simp add: numeral_eq_Suc)

lemma CIDRMask_loop_numeral:
  "CIDRMask_loop (numeral k) n =
     (if n \<ge> 8 then 0xff # CIDRMask_loop (pred_numeral k) (n - 8)
      else NOT (drop_bit n (0xff :: byte)) # CIDRMask_loop (pred_numeral k) 0)"
  by (simp add: numeral_eq_Suc)

lemmas parse_eval =
  net_ParseIP_def netip_ParseAddr_def parseIPv4Fields_def is_digit_def digit_val_def hex_val_def
  parseIPv6_def v4InV6Prefix_def parseIPv6_loop.simps replicate_numeral Let_def

lemmas cidr_eval =
  net_ParseCIDR_def dtoi_def BitLen_def CIDRMask_def IP_Mask_def CIDRMask_loop_numeral

lemma InitializePrivateIPBlocks_table: "InitializePrivateIPBlocks = Inr private_table"
  by (simp add: InitializePrivateIPBlocks_def private_table_def parse_eval cidr_eval)

lemmas header_eval =
  Header_Get_def CanonicalMIMEHeaderKey_def toUpper_def toLower_def FieldsFunc_def splitFn_def

lemmas class_eval =
  IsPrivateIP_def IsLoopback_def IsLinkLocalUnicast_def IsLinkLocalMulticast_def To4_def
  IP_Equal_def IPv6loopback_def IPNet_Contains_def networkNumberAndMask_def private_table_def

lemmas lit_eval = lit_compile_def lit_char_def lit_matchString_def fullUrl_def

lemma wp_New: "New_ip lit_compile ''next'' wp_config ''BlockUrls'' = ([], Inr wp_blockUrls)"
  by (simp add: New_ip_def wp_config_def wp_blockUrls_def lit_eval InitializePrivateIPBlocks_table)

lemma match_wp: "lit_matchString ''/wp-'' (fullUrl (wp_request h))"
  by (simp add: lit_eval wp_request_def)

lemma nomatch_index: "\<not> lit_matchString ''/wp-'' (fullUrl (index_request h))"
  by (simp add: lit_eval index_request_def)

subsection \<open>What \<open>ServeHTTP\<close> and \<open>CollectRemoteIP\<close> compute\<close>

lemma ServeHTTP_ip_writes:
  "status_writes (ServeHTTP_ip ms b req) =
     (if (\<exists>r \<in> set (regexps b). ms r (fullUrl req)) \<and> denies b req then [statusCode b] else [])"
  by (simp add: ServeHTTP_ip_def ServeHTTP_ip_loop_writes)

lemma ServeHTTP_ip_calls:
  "next_calls (ServeHTTP_ip ms b req) =
     (if (\<exists>r \<in> set (regexps b). ms r (fullUrl req)) \<and> denies b req then []
      else [(nextHandler b, req)])"
  by (simp add: ServeHTTP_ip_def ServeHTTP_ip_loop_calls)

lemma ServeHTTP_ip_loop_logs:
  assumes "\<exists>r \<in> set rs. ms r (fullUrl req)" and "snd (CollectRemoteIP req) = Some e"
  shows "Log LogCollectFailed \<in> set (ServeHTTP_ip_loop ms b req rs)
         \<and> Log (LogError e) \<in> set (ServeHTTP_ip_loop ms b req rs)"
  using assms(1)
proof (induction rs)
  case Nil
  then show ?case by simp
next
  case (Cons r rs)
  obtain ips where c: "CollectRemoteIP req = (ips, Some e)"
    using assms(2) by (cases "CollectRemoteIP req") auto
  show ?case
  proof (cases "ms r (fullUrl req)")
    case True
    with c show ?thesis by simp
  next
    case False
    with Cons show ?thesis by simp
  qed
qed

lemma first_bad_Some: "first_bad ts = Some t \<Longrightarrow> net_ParseIP t = None \<and> t \<in> set ts"
  by (induction ts) (auto split: option.splits)

lemma parsed_prefix_append:
  "parsed_prefix (xs @ ys) =
     (if first_bad xs = None then parsed_prefix xs @ parsed_prefix ys else parsed_prefix xs)"
  by (induction xs) (auto split: option.splits)

lemma first_bad_append:
  "first_bad (xs @ ys) = (case first_bad xs of None \<Rightarrow> first_bad ys | Some t \<Rightarrow> Some t)"
  by (induction xs) (auto split: option.splits)

lemma first_bad_None_iff: "first_bad ts = None \<longleftrightarrow> (\<forall>t \<in> set ts. net_ParseIP t \<noteq> None)"
  by (induction ts) (auto split: option.splits)

lemma parsed_prefix_all:
  "map net_ParseIP ts = map Some ips \<Longrightarrow> parsed_prefix ts = ips \<and> first_bad ts = None"
  by (induction ts arbitrary: ips) auto

lemma CollectRemoteIP_loop_spec:
  "CollectRemoteIP_loop ts acc =
     (acc @ parsed_prefix ts, map_option (\<lambda>t. ParsingFailed (UnableToParseIP t)) (first_bad ts))"
  by (induction ts arbitrary: acc) (auto simp: ParseIP_def split: option.splits)

lemma CollectRemoteIP_spec:
  "CollectRemoteIP req =
     (parsed_prefix (header_tokens req ''X-Forwarded-For'' @ header_tokens req ''X-Real-IP''),
      map_option (\<lambda>t. ParsingFailed (UnableToParseIP t))
        (first_bad (header_tokens req ''X-Forwarded-For'' @ header_tokens req ''X-Real-IP'')))"
  by (cases "first_bad (header_tokens req ''X-Forwarded-For'')")
     (simp_all add: CollectRemoteIP_def header_tokens_def Let_def CollectRemoteIP_loop_spec
        parsed_prefix_append first_bad_append)

lemma ServeHTTP_exact_writes:
  "status_writes (ServeHTTP_exact ms b req) =
     (if slices_Contains (exactMatch b) (fullUrl req) \<or> (\<exists>r \<in> set (regexps b). ms r (fullUrl req))
      then [statusCode b] else [])"
  by (simp add: ServeHTTP_exact_def ServeHTTP_regex_loop_writes)

lemma ServeHTTP_exact_calls:
  "next_calls (ServeHTTP_exact ms b req) =
     (if slices_Contains (exactMatch b) (fullUrl req) \<or> (\<exists>r \<in> set (regexps b). ms r (fullUrl req))
      then [] else [(nextHandler b, req)])"
  by (simp add: ServeHTTP_exact_def ServeHTTP_regex_loop_calls)

subsection \<open>What \<open>New\<close> returns\<close>

lemma New_ip_Inr:
  assumes "snd (New_ip compile nxt config nm) = Inr b"
  shows "nextHandler b = nxt \<and> statusCode b = StatusCode config
         \<and> allowLocalRequests b = AllowLocalRequests config
         \<and> privateIPRanges b = private_table
         \<and> compile_loop compile (Regex config) = Inr (regexps b) \<and> Regex config \<noteq> []"
  using assms
  by (auto simp: New_ip_def Let_def InitializePrivateIPBlocks_table split: if_splits sum.splits)

lemma New_ip_fails:
  assumes "\<exists>regex \<in> set (Regex config). compile regex = None"
  shows "\<exists>regex \<in> set (Regex config). compile regex = None
           \<and> snd (New_ip compile nxt config nm) = Inl (CompileError regex)"
proof -
  from compile_loop_fails [OF assms] obtain regex where r: "regex \<in> set (Regex config)"
    "compile regex = None" "compile_loop compile (Regex config) = Inl (CompileError regex)"
    by blast
  from r(1) have "Regex config \<noteq> []" by auto
  with r(3) have "snd (New_ip compile nxt config nm) = Inl (CompileError regex)"
    by (simp add: New_ip_def Let_def)
  with r show ?thesis by blast
qed

lemma New_substr_fails:
  assumes "\<exists>regex \<in> set (Regex config). compile regex = None"
  shows "\<exists>regex \<in> set (Regex config). compile regex = None
           \<and> snd (New_substr compile nxt config nm) = Inl (CompileError regex)"
proof -
  from compile_loop_fails [OF assms] obtain regex where r: "regex \<in> set (Regex config)"
    "compile regex = None" "compile_loop compile (Regex config) = Inl (CompileError regex)"
    by blast
  from r(3) have "snd (New_substr compile nxt config nm) = Inl (CompileError regex)"
    by (simp add: New_substr_def Let_def)
  with r show ?thesis by blast
qed

lemma New_exact_fails:
  assumes "\<exists>regex \<in> set (Regex config). compile regex = None"
  shows "\<exists>regex \<in> set (Regex config). compile regex = None
           \<and> snd (New_exact compile nxt config nm) = Inl (CompileError regex)"
proof -
  from compile_loop_fails [OF assms] obtain regex where r: "regex \<in> set (Regex config)"
    "compile regex = None" "compile_loop compile (Regex config) = Inl (CompileError regex)"
    by blast
  from r(3) have "snd (New_exact compile nxt config nm) = Inl (CompileError regex)"
    by (simp add: New_exact_def Let_def)
  with r show ?thesis by blast
qed

lemma New_substr_Inr:
  "snd (New_substr compile nxt config nm) = Inr b \<Longrightarrow>
     nextHandler b = nxt \<and> statusCode b = StatusCode config \<and> matchStrings b = MatchStrings config
     \<and> compile_loop compile (Regex config) = Inr (regexps b)"
  by (auto simp: New_substr_def Let_def split: sum.splits)

lemma New_exact_Inr:
  "snd (New_exact compile nxt config nm) = Inr b \<Longrightarrow>
     nextHandler b = nxt \<and> statusCode b = StatusCode config \<and> exactMatch b = ExactMatch config
     \<and> compile_loop compile (Regex config) = Inr (regexps b)"
  by (auto simp: New_exact_def Let_def split: sum.splits)

subsection \<open>Header values made of addresses\<close>

lemma parses_tokens:
  assumes "map net_ParseIP ts = map Some ips"
  shows "\<forall>t \<in> set ts. t \<noteq> [] \<and> CHR '','' \<notin> set t"
proof
  fix t assume "t \<in> set ts"
  then have "net_ParseIP t \<in> set (map Some ips)" using assms by (metis image_eqI list.set_map)
  then obtain ip where "net_ParseIP t = Some ip" by auto
  from net_ParseIP_chars [OF this] addr_char_comma show "t \<noteq> [] \<and> CHR '','' \<notin> set t"
    by blast
qed

lemma header_tokens_Join:
  assumes "Header_Get (Header req) key = strings_Join ts '',''"
    and "map net_ParseIP ts = map Some ips"
  shows "header_tokens req key = ts"
  using FieldsFunc_Join [OF parses_tokens [OF assms(2)]] assms(1)
  by (simp add: header_tokens_def)

lemma space_not_parsed: "CHR '' '' \<in> set t \<Longrightarrow> net_ParseIP t = None"
  using net_ParseIP_chars [of t] addr_char_space by (cases "net_ParseIP t") auto

lemma partial_tokens:
  "header_tokens (wp_request partial_headers) ''X-Forwarded-For''
     = [''10.0.0.1'', ''unknown'', ''2.56.20.0'']"
  "header_tokens (wp_request partial_headers) ''X-Real-IP'' = [''2.56.20.0'']"
  by (simp_all add: header_tokens_def wp_request_def partial_headers_def header_eval)

lemma partial_parse:
  "net_ParseIP ''10.0.0.1'' = Some [0, 0, 0, 0, 0, 0, 0, 0, 0, 0, 255, 255, 10, 0, 0, 1]"
  "net_ParseIP ''unknown'' = None"
  "net_ParseIP ''2.56.20.0'' = Some [0, 0, 0, 0, 0, 0, 0, 0, 0, 0, 255, 255, 2, 56, 20, 0]"
  by (simp_all add: parse_eval)

section \<open>The properties\<close>

text \<open>
  C1. In the revision with the exemption, built by \<open>New\<close> from a configuration with
  \<open>allowLocalRequests\<close> true, take a request whose URL (host and request target) matches
  one of the regular expressions. If every address \<open>CollectRemoteIP\<close> returns is private
  (loopback, link-local unicast or multicast, or inside a block of the table of
  \<open>InitializePrivateIPBlocks\<close>), the request goes to the next handler and no status code is
  written; if one of them is not private, the configured status code is written and the next
  handler is not called.
\<close>

theorem private_exemption_decides:
  assumes "snd (New_ip compile nxt config nm) = Inr blockUrls"
    and "AllowLocalRequests config"
    and "\<exists>regex \<in> set (regexps blockUrls). matchString regex (fullUrl req)"
  shows "InitializePrivateIPBlocks = Inr (privateIPRanges blockUrls) \<and>
    (if \<forall>ip \<in> set (fst (CollectRemoteIP req)).
          IsLoopback ip \<or> IsLinkLocalUnicast ip \<or> IsLinkLocalMulticast ip
          \<or> (\<exists>block \<in> set (privateIPRanges blockUrls). IPNet_Contains block ip)
     then next_calls (ServeHTTP_ip matchString blockUrls req) = [(nxt, req)]
          \<and> status_writes (ServeHTTP_ip matchString blockUrls req) = []
     else status_writes (ServeHTTP_ip matchString blockUrls req) = [StatusCode config]
          \<and> next_calls (ServeHTTP_ip matchString blockUrls req) = [])"
proof -
  from New_ip_Inr [OF assms(1)] have b: "nextHandler blockUrls = nxt"
    "statusCode blockUrls = StatusCode config" "allowLocalRequests blockUrls"
    "privateIPRanges blockUrls = private_table"
    using assms(2) by simp_all
  have tab: "InitializePrivateIPBlocks = Inr (privateIPRanges blockUrls)"
    by (simp add: b InitializePrivateIPBlocks_table)
  have d: "denies blockUrls req \<longleftrightarrow>
     \<not> (\<forall>ip \<in> set (fst (CollectRemoteIP req)).
          IsLoopback ip \<or> IsLinkLocalUnicast ip \<or> IsLinkLocalMulticast ip
          \<or> (\<exists>block \<in> set (privateIPRanges blockUrls). IPNet_Contains block ip))"
    using b(3) by (simp add: IsPrivateIP_iff)
  show ?thesis
    using assms(3) tab d b(1,2) by (simp add: ServeHTTP_ip_writes ServeHTTP_ip_calls)
qed

theorem private_exemption_decides_witness:
  "next_calls (ServeHTTP_ip lit_matchString wp_blockUrls (wp_request [(''X-Real-Ip'', [''192.168.1.1''])]))
     = [(''next'', wp_request [(''X-Real-Ip'', [''192.168.1.1''])])]
   \<and> status_writes (ServeHTTP_ip lit_matchString wp_blockUrls (wp_request [(''X-Real-Ip'', [''192.168.1.1''])])) = []
   \<and> status_writes (ServeHTTP_ip lit_matchString wp_blockUrls (wp_request [(''X-Forwarded-For'', [''2.56.20.0''])])) = [404]
   \<and> next_calls (ServeHTTP_ip lit_matchString wp_blockUrls (wp_request [(''X-Forwarded-For'', [''2.56.20.0''])])) = []"
proof -
  have new: "snd (New_ip lit_compile ''next'' wp_config ''BlockUrls'') = Inr wp_blockUrls"
    by (simp add: wp_New)
  have allow: "AllowLocalRequests wp_config" by (simp add: wp_config_def)
  have m: "\<exists>regex \<in> set (regexps wp_blockUrls). lit_matchString regex (fullUrl (wp_request h))" for h
    by (simp add: wp_blockUrls_def match_wp)
  have c1: "CollectRemoteIP (wp_request [(''X-Real-Ip'', [''192.168.1.1''])]) =
     ([[0, 0, 0, 0, 0, 0, 0, 0, 0, 0, 255, 255, 192, 168, 1, 1]], None)"
    by (simp add: CollectRemoteIP_def wp_request_def ParseIP_def header_eval parse_eval)
  have c2: "CollectRemoteIP (wp_request [(''X-Forwarded-For'', [''2.56.20.0''])]) =
     ([[0, 0, 0, 0, 0, 0, 0, 0, 0, 0, 255, 255, 2, 56, 20, 0]], None)"
    by (simp add: CollectRemoteIP_def wp_request_def ParseIP_def header_eval parse_eval)
  have p1: "IsLoopback ip \<or> IsLinkLocalUnicast ip \<or> IsLinkLocalMulticast ip
          \<or> (\<exists>block \<in> set (privateIPRanges wp_blockUrls). IPNet_Contains block ip)"
    if "ip = [0, 0, 0, 0, 0, 0, 0, 0, 0, 0, 255, 255, 192, 168, 1, 1]" for ip
    unfolding that by (simp add: wp_blockUrls_def class_eval)
  have p2: "\<not> (IsLoopback ip \<or> IsLinkLocalUnicast ip \<or> IsLinkLocalMulticast ip
          \<or> (\<exists>block \<in> set (privateIPRanges wp_blockUrls). IPNet_Contains block ip))"
    if "ip = [0, 0, 0, 0, 0, 0, 0, 0, 0, 0, 255, 255, 2, 56, 20, 0]" for ip
    unfolding that by (simp add: wp_blockUrls_def class_eval)
  have code: "StatusCode wp_config = 404" by (simp add: wp_config_def)
  show ?thesis
    using private_exemption_decides [of lit_compile "''next''" wp_config "''BlockUrls''"
            wp_blockUrls lit_matchString "wp_request [(''X-Real-Ip'', [''192.168.1.1''])]",
            OF new allow m]
          private_exemption_decides [of lit_compile "''next''" wp_config "''BlockUrls''"
            wp_blockUrls lit_matchString "wp_request [(''X-Forwarded-For'', [''2.56.20.0''])]",
            OF new allow m]
          p1 p2
    by (simp add: c1 c2 code)
qed

text \<open>
  C2. In each revision, a request whose URL matches none of the literal rules and none of
  the regular expressions is handed to the next handler exactly once, unchanged, and
  \<open>ServeHTTP\<close> writes no status code.
\<close>

theorem no_match_forwards:
  "((\<forall>regex \<in> set (regexps a). \<not> matchString regex (fullUrl req)) \<longrightarrow>
      next_calls (ServeHTTP_ip matchString a req) = [(nextHandler a, req)]
      \<and> status_writes (ServeHTTP_ip matchString a req) = [])
   \<and> ((\<forall>str \<in> set (matchStrings b). \<not> strings_Contains (fullUrl req) str)
       \<and> (\<forall>regex \<in> set (regexps b). \<not> matchString regex (fullUrl req)) \<longrightarrow>
      next_calls (ServeHTTP_substr matchString b req) = [(nextHandler b, req)]
      \<and> status_writes (ServeHTTP_substr matchString b req) = [])
   \<and> (\<not> slices_Contains (exactMatch c) (fullUrl req)
       \<and> (\<forall>regex \<in> set (regexps c). \<not> matchString regex (fullUrl req)) \<longrightarrow>
      next_calls (ServeHTTP_exact matchString c req) = [(nextHandler c, req)]
      \<and> status_writes (ServeHTTP_exact matchString c req) = [])"
  by (simp add: ServeHTTP_ip_writes ServeHTTP_ip_calls ServeHTTP_substr_def
      ServeHTTP_substr_loop_writes ServeHTTP_substr_loop_calls
      ServeHTTP_exact_writes ServeHTTP_exact_calls)

theorem no_match_forwards_witness:
  "next_calls (ServeHTTP_ip lit_matchString wp_blockUrls (index_request [(''X-Forwarded-For'', [''2.56.20.0''])]))
     = [(''next'', index_request [(''X-Forwarded-For'', [''2.56.20.0''])])]
   \<and> status_writes (ServeHTTP_ip lit_matchString wp_blockUrls (index_request [(''X-Forwarded-For'', [''2.56.20.0''])])) = []
   \<and> next_calls (ServeHTTP_substr lit_matchString sub_blockUrls (index_request [])) = [(''next'', index_request [])]
   \<and> status_writes (ServeHTTP_substr lit_matchString sub_blockUrls (index_request [])) = []
   \<and> next_calls (ServeHTTP_exact lit_matchString exact_blockUrls (index_request [])) = [(''next'', index_request [])]
   \<and> status_writes (ServeHTTP_exact lit_matchString exact_blockUrls (index_request [])) = []"
proof -
  have a: "\<forall>regex \<in> set (regexps wp_blockUrls). \<not> lit_matchString regex (fullUrl (index_request h))" for h
    by (simp add: wp_blockUrls_def nomatch_index)
  have b: "(\<forall>str \<in> set (matchStrings sub_blockUrls). \<not> strings_Contains (fullUrl (index_request [])) str)
       \<and> (\<forall>regex \<in> set (regexps sub_blockUrls). \<not> lit_matchString regex (fullUrl (index_request [])))"
    by (simp add: sub_blockUrls_def index_request_def lit_eval)
  have c: "\<not> slices_Contains (exactMatch exact_blockUrls) (fullUrl (index_request []))
       \<and> (\<forall>regex \<in> set (regexps exact_blockUrls). \<not> lit_matchString regex (fullUrl (index_request [])))"
    by (simp add: exact_blockUrls_def index_request_def lit_eval slices_Contains_def)
  have n: "nextHandler wp_blockUrls = ''next''" "nextHandler sub_blockUrls = ''next''"
    "nextHandler exact_blockUrls = ''next''"
    by (simp_all add: wp_blockUrls_def sub_blockUrls_def exact_blockUrls_def)
  show ?thesis
    using no_match_forwards [of wp_blockUrls lit_matchString
            "index_request [(''X-Forwarded-For'', [''2.56.20.0''])]" sub_blockUrls exact_blockUrls]
          no_match_forwards [of wp_blockUrls lit_matchString "index_request []" sub_blockUrls
            exact_blockUrls]
          a b c
    by (simp add: n)
qed

text \<open>
  C3. With \<open>allowLocalRequests\<close> false, a request whose URL matches a regular expression
  gets the configured status code and never reaches the next handler, whatever its headers
  \<open>h\<close> are.
\<close>

theorem match_blocks_without_exemption:
  assumes "\<not> allowLocalRequests blockUrls"
    and "\<exists>regex \<in> set (regexps blockUrls). matchString regex (fullUrl req)"
  shows "status_writes (ServeHTTP_ip matchString blockUrls (req\<lparr>Header := h\<rparr>)) = [statusCode blockUrls]
         \<and> next_calls (ServeHTTP_ip matchString blockUrls (req\<lparr>Header := h\<rparr>)) = []"
proof -
  have "fullUrl (req\<lparr>Header := h\<rparr>) = fullUrl req" by (simp add: fullUrl_def)
  with assms show ?thesis by (simp add: ServeHTTP_ip_writes ServeHTTP_ip_calls)
qed

theorem match_blocks_without_exemption_witness:
  "status_writes (ServeHTTP_ip lit_matchString (wp_blockUrls\<lparr>allowLocalRequests := False\<rparr>)
       (wp_request [(''X-Real-Ip'', [''192.168.1.1''])])) = [404]
   \<and> next_calls (ServeHTTP_ip lit_matchString (wp_blockUrls\<lparr>allowLocalRequests := False\<rparr>)
       (wp_request [(''X-Real-Ip'', [''192.168.1.1''])])) = []"
proof -
  have a: "\<not> allowLocalRequests (wp_blockUrls\<lparr>allowLocalRequests := False\<rparr>)" by simp
  have m: "\<exists>regex \<in> set (regexps (wp_blockUrls\<lparr>allowLocalRequests := False\<rparr>)).
             lit_matchString regex (fullUrl (wp_request []))"
    by (simp add: wp_blockUrls_def match_wp)
  have r: "(wp_request [])\<lparr>Header := [(''X-Real-Ip'', [''192.168.1.1''])]\<rparr>
           = wp_request [(''X-Real-Ip'', [''192.168.1.1''])]"
    by (simp add: wp_request_def)
  have s: "statusCode (wp_blockUrls\<lparr>allowLocalRequests := False\<rparr>) = 404"
    by (simp add: wp_blockUrls_def)
  show ?thesis
    using match_blocks_without_exemption
            [of "wp_blockUrls\<lparr>allowLocalRequests := False\<rparr>" lit_matchString "wp_request []"
                "[(''X-Real-Ip'', [''192.168.1.1''])]", OF a m]
    by (simp add: r s)
qed

text \<open>
  C4, as the specification states it: when a value of a forwarding header does not parse,
  the addresses collected before it are discarded and a matching request is blocked. The code
  does otherwise: the request below carries \<open>10.0.0.1,unknown\<close>, the extraction fails at
  \<open>unknown\<close>, and the request is handed to the next handler.
\<close>

theorem parse_failure_forwarded_counterexample:
  "CollectRemoteIP (wp_request [(''X-Forwarded-For'', [''10.0.0.1,unknown''])]) =
     ([[0, 0, 0, 0, 0, 0, 0, 0, 0, 0, 255, 255, 10, 0, 0, 1]],
      Some (ParsingFailed (UnableToParseIP ''unknown'')))
   \<and> ServeHTTP_ip lit_matchString wp_blockUrls (wp_request [(''X-Forwarded-For'', [''10.0.0.1,unknown''])]) =
     [Log (LogFullURL ''localhost/wp-login''),
      MatchString ''/wp-'' ''localhost/wp-login'',
      Log LogCollectFailed,
      Log (LogError (ParsingFailed (UnableToParseIP ''unknown''))),
      NextServeHTTP ''next'' (wp_request [(''X-Forwarded-For'', [''10.0.0.1,unknown''])])]"
proof -
  have c: "CollectRemoteIP (wp_request [(''X-Forwarded-For'', [''10.0.0.1,unknown''])]) =
     ([[0, 0, 0, 0, 0, 0, 0, 0, 0, 0, 255, 255, 10, 0, 0, 1]],
      Some (ParsingFailed (UnableToParseIP ''unknown'')))"
    by (simp add: CollectRemoteIP_def wp_request_def ParseIP_def header_eval parse_eval)
  have u: "fullUrl (wp_request h) = ''localhost/wp-login''" for h
    by (simp add: fullUrl_def wp_request_def)
  have p: "IsPrivateIP [0, 0, 0, 0, 0, 0, 0, 0, 0, 0, 255, 255, 10, 0, 0, 1] private_table"
    by (simp add: class_eval)
  have m: "lit_matchString ''/wp-'' ''localhost/wp-login''"
    by (simp add: lit_matchString_def)
  show ?thesis
    by (simp add: c ServeHTTP_ip_def u wp_blockUrls_def p m)
qed

text \<open>
  C4, amended. When a value of a forwarding header does not parse, \<open>CollectRemoteIP\<close>
  returns the error for the first such value together with the addresses of the values before
  it, and \<open>ServeHTTP\<close>, for a matching request, logs the failure and the error and decides
  on these addresses: it writes the status code when the exemption is off or one of them is
  not private, and hands the request to the next handler otherwise. One of the two always
  happens.
\<close>

theorem parse_failure_uses_partial_list:
  assumes "\<exists>t \<in> set (header_tokens req ''X-Forwarded-For'' @ header_tokens req ''X-Real-IP'').
             net_ParseIP t = None"
    and "\<exists>regex \<in> set (regexps b). matchString regex (fullUrl req)"
  shows "\<exists>t. first_bad (header_tokens req ''X-Forwarded-For'' @ header_tokens req ''X-Real-IP'')
               = Some t
           \<and> net_ParseIP t = None
           \<and> CollectRemoteIP req =
               (parsed_prefix (header_tokens req ''X-Forwarded-For''
                               @ header_tokens req ''X-Real-IP''),
                Some (ParsingFailed (UnableToParseIP t)))
           \<and> Log LogCollectFailed \<in> set (ServeHTTP_ip matchString b req)
           \<and> Log (LogError (ParsingFailed (UnableToParseIP t)))
               \<in> set (ServeHTTP_ip matchString b req)
           \<and> (if \<not> allowLocalRequests b
                  \<or> (\<exists>ip \<in> set (parsed_prefix (header_tokens req ''X-Forwarded-For''
                                                  @ header_tokens req ''X-Real-IP'')).
                        \<not> IsPrivateIP ip (privateIPRanges b))
               then status_writes (ServeHTTP_ip matchString b req) = [statusCode b]
                    \<and> next_calls (ServeHTTP_ip matchString b req) = []
               else next_calls (ServeHTTP_ip matchString b req) = [(nextHandler b, req)]
                    \<and> status_writes (ServeHTTP_ip matchString b req) = [])"
proof -
  let ?toks = "header_tokens req ''X-Forwarded-For'' @ header_tokens req ''X-Real-IP''"
  from assms(1) have "first_bad ?toks \<noteq> None" using first_bad_None_iff by blast
  then obtain t where t: "first_bad ?toks = Some t" by auto
  have bad: "net_ParseIP t = None"
    using first_bad_Some [OF t] by simp
  have c: "CollectRemoteIP req = (parsed_prefix ?toks, Some (ParsingFailed (UnableToParseIP t)))"
    by (simp add: CollectRemoteIP_spec t)
  then have e: "snd (CollectRemoteIP req) = Some (ParsingFailed (UnableToParseIP t))" by simp
  have logs: "Log LogCollectFailed \<in> set (ServeHTTP_ip matchString b req)
       \<and> Log (LogError (ParsingFailed (UnableToParseIP t))) \<in> set (ServeHTTP_ip matchString b req)"
    using ServeHTTP_ip_loop_logs [of "regexps b" matchString req _ b, OF assms(2) e]
    by (simp add: ServeHTTP_ip_def)
  have dec: "if \<not> allowLocalRequests b
                  \<or> (\<exists>ip \<in> set (parsed_prefix ?toks). \<not> IsPrivateIP ip (privateIPRanges b))
               then status_writes (ServeHTTP_ip matchString b req) = [statusCode b]
                    \<and> next_calls (ServeHTTP_ip matchString b req) = []
               else next_calls (ServeHTTP_ip matchString b req) = [(nextHandler b, req)]
                    \<and> status_writes (ServeHTTP_ip matchString b req) = []"
    using assms(2) by (simp add: ServeHTTP_ip_writes ServeHTTP_ip_calls c)
  from t bad c logs dec show ?thesis by blast
qed

theorem parse_failure_uses_partial_list_witness:
  "CollectRemoteIP (wp_request [(''X-Forwarded-For'', [''2.56.20.0,unknown''])]) =
     ([[0, 0, 0, 0, 0, 0, 0, 0, 0, 0, 255, 255, 2, 56, 20, 0]],
      Some (ParsingFailed (UnableToParseIP ''unknown'')))
   \<and> Log LogCollectFailed \<in> set (ServeHTTP_ip lit_matchString wp_blockUrls
        (wp_request [(''X-Forwarded-For'', [''2.56.20.0,unknown''])]))
   \<and> Log (LogError (ParsingFailed (UnableToParseIP ''unknown'')))
       \<in> set (ServeHTTP_ip lit_matchString wp_blockUrls
        (wp_request [(''X-Forwarded-For'', [''2.56.20.0,unknown''])]))
   \<and> status_writes (ServeHTTP_ip lit_matchString wp_blockUrls
        (wp_request [(''X-Forwarded-For'', [''2.56.20.0,unknown''])])) = [404]
   \<and> next_calls (ServeHTTP_ip lit_matchString wp_blockUrls
        (wp_request [(''X-Forwarded-For'', [''2.56.20.0,unknown''])])) = []"
proof -
  let ?req = "wp_request [(''X-Forwarded-For'', [''2.56.20.0,unknown''])]"
  have t: "header_tokens ?req ''X-Forwarded-For'' = [''2.56.20.0'', ''unknown'']"
    "header_tokens ?req ''X-Real-IP'' = []"
    by (simp_all add: header_tokens_def wp_request_def header_eval)
  have bad: "\<exists>t \<in> set (header_tokens ?req ''X-Forwarded-For'' @ header_tokens ?req ''X-Real-IP'').
             net_ParseIP t = None"
    by (simp add: t partial_parse)
  have m: "\<exists>regex \<in> set (regexps wp_blockUrls). lit_matchString regex (fullUrl ?req)"
    by (simp add: wp_blockUrls_def match_wp)
  have np: "\<not> IsPrivateIP [0, 0, 0, 0, 0, 0, 0, 0, 0, 0, 255, 255, 2, 56, 20, 0]
                (privateIPRanges wp_blockUrls)"
    by (simp add: wp_blockUrls_def class_eval)
  have s: "statusCode wp_blockUrls = 404" by (simp add: wp_blockUrls_def)
  show ?thesis
    using parse_failure_uses_partial_list [of ?req wp_blockUrls lit_matchString, OF bad m] np
    by (simp add: t partial_parse s)
qed

text \<open>
  C5. With \<open>allowLocalRequests\<close> true, a matching request whose two forwarding headers
  are absent or empty yields no address, the accumulator of the check stays true, and the
  request is handed to the next handler.
\<close>

theorem no_addresses_exempt:
  assumes "allowLocalRequests blockUrls"
    and "\<exists>regex \<in> set (regexps blockUrls). matchString regex (fullUrl req)"
    and "Header_Get (Header req) ''X-Forwarded-For'' = []"
    and "Header_Get (Header req) ''X-Real-IP'' = []"
  shows "CollectRemoteIP req = ([], None)
         \<and> isPrivateIp_loop (privateIPRanges blockUrls) (fst (CollectRemoteIP req)) True
         \<and> next_calls (ServeHTTP_ip matchString blockUrls req) = [(nextHandler blockUrls, req)]
         \<and> status_writes (ServeHTTP_ip matchString blockUrls req) = []"
proof -
  have c: "CollectRemoteIP req = ([], None)"
    using assms(3,4) by (simp add: CollectRemoteIP_def FieldsFunc_def)
  then show ?thesis
    using assms(1,2) by (simp add: ServeHTTP_ip_writes ServeHTTP_ip_calls)
qed

theorem no_addresses_exempt_witness:
  "CollectRemoteIP (wp_request []) = ([], None)
   \<and> next_calls (ServeHTTP_ip lit_matchString wp_blockUrls (wp_request [])) = [(''next'', wp_request [])]
   \<and> status_writes (ServeHTTP_ip lit_matchString wp_blockUrls (wp_request [])) = []
   \<and> next_calls (ServeHTTP_ip lit_matchString wp_blockUrls (wp_request [(''X-Forwarded-For'', [''''])]))
       = [(''next'', wp_request [(''X-Forwarded-For'', [''''])])]"
proof -
  have a: "allowLocalRequests wp_blockUrls" by (simp add: wp_blockUrls_def)
  have m: "\<exists>regex \<in> set (regexps wp_blockUrls). lit_matchString regex (fullUrl (wp_request h))" for h
    by (simp add: wp_blockUrls_def match_wp)
  have h1: "Header_Get (Header (wp_request [])) ''X-Forwarded-For'' = []"
    "Header_Get (Header (wp_request [])) ''X-Real-IP'' = []"
    by (simp_all add: wp_request_def header_eval)
  have h2: "Header_Get (Header (wp_request [(''X-Forwarded-For'', [''''])])) ''X-Forwarded-For'' = []"
    "Header_Get (Header (wp_request [(''X-Forwarded-For'', [''''])])) ''X-Real-IP'' = []"
    by (simp_all add: wp_request_def header_eval)
  have n: "nextHandler wp_blockUrls = ''next''" by (simp add: wp_blockUrls_def)
  show ?thesis
    using no_addresses_exempt [of wp_blockUrls lit_matchString "wp_request []", OF a m h1]
          no_addresses_exempt [of wp_blockUrls lit_matchString
            "wp_request [(''X-Forwarded-For'', [''''])]", OF a m h2]
    by (simp add: n)
qed

text \<open>
  C6. In each revision, \<open>New\<close> on a configuration with a pattern that does not compile
  returns the error for such a pattern and no struct; and whenever \<open>New\<close> returns a struct,
  its regular expressions are the compiled patterns of the configuration, all of them and in
  order.
\<close>

theorem invalid_regex_fails_New:
  "((\<exists>regex \<in> set (Regex ci). compile regex = None) \<longrightarrow>
      (\<exists>regex \<in> set (Regex ci). compile regex = None
         \<and> snd (New_ip compile nxt ci nm) = Inl (CompileError regex)))
   \<and> ((\<exists>regex \<in> set (Regex cs). compile regex = None) \<longrightarrow>
      (\<exists>regex \<in> set (Regex cs). compile regex = None
         \<and> snd (New_substr compile nxt cs nm) = Inl (CompileError regex)))
   \<and> ((\<exists>regex \<in> set (Regex ce). compile regex = None) \<longrightarrow>
      (\<exists>regex \<in> set (Regex ce). compile regex = None
         \<and> snd (New_exact compile nxt ce nm) = Inl (CompileError regex)))
   \<and> (\<forall>b. snd (New_ip compile nxt ci nm) = Inr b \<longrightarrow>
         map compile (Regex ci) = map Some (regexps b))
   \<and> (\<forall>b. snd (New_substr compile nxt cs nm) = Inr b \<longrightarrow>
         map compile (Regex cs) = map Some (regexps b))
   \<and> (\<forall>b. snd (New_exact compile nxt ce nm) = Inr b \<longrightarrow>
         map compile (Regex ce) = map Some (regexps b))"
  using New_ip_fails [of ci compile nxt nm] New_substr_fails [of cs compile nxt nm]
    New_exact_fails [of ce compile nxt nm]
    New_ip_Inr [of compile nxt ci nm] New_substr_Inr [of compile nxt cs nm]
    New_exact_Inr [of compile nxt ce nm] compile_loop_Inr [of compile]
  by blast

theorem invalid_regex_fails_New_witness:
  "snd (New_ip lit_compile ''next'' bad_config_ip ''BlockUrls'') = Inl (CompileError ''('')
   \<and> snd (New_substr lit_compile ''next'' bad_config_substr ''BlockUrls'') = Inl (CompileError ''('')
   \<and> snd (New_exact lit_compile ''next'' bad_config_exact ''BlockUrls'') = Inl (CompileError ''('')
   \<and> map lit_compile (Regex wp_config) = map Some (regexps wp_blockUrls)"
proof -
  have bad: "\<exists>regex \<in> set (Regex bad_config_ip). lit_compile regex = None"
    "\<exists>regex \<in> set (Regex bad_config_substr). lit_compile regex = None"
    "\<exists>regex \<in> set (Regex bad_config_exact). lit_compile regex = None"
    by (simp_all add: bad_config_ip_def bad_config_substr_def bad_config_exact_def lit_eval)
  have only: "regex \<in> set [''/wp-'', ''(''] \<and> lit_compile regex = None \<longleftrightarrow> regex = ''(''" for regex
    by (auto simp: lit_eval)
  have r: "Regex bad_config_ip = [''/wp-'', ''('']" "Regex bad_config_substr = [''/wp-'', ''('']"
    "Regex bad_config_exact = [''/wp-'', ''('']"
    by (simp_all add: bad_config_ip_def bad_config_substr_def bad_config_exact_def)
  have ok: "snd (New_ip lit_compile ''next'' wp_config ''BlockUrls'') = Inr wp_blockUrls"
    by (simp add: wp_New)
  note t1 = invalid_regex_fails_New [of bad_config_ip lit_compile "''next''" "''BlockUrls''"
      bad_config_substr bad_config_exact]
  note t2 = invalid_regex_fails_New [of wp_config lit_compile "''next''" "''BlockUrls''"
      bad_config_substr bad_config_exact]
  from t1 bad have
    "\<exists>regex. (regex \<in> set [''/wp-'', ''(''] \<and> lit_compile regex = None)
       \<and> snd (New_ip lit_compile ''next'' bad_config_ip ''BlockUrls'') = Inl (CompileError regex)"
    "\<exists>regex. (regex \<in> set [''/wp-'', ''(''] \<and> lit_compile regex = None)
       \<and> snd (New_substr lit_compile ''next'' bad_config_substr ''BlockUrls'') = Inl (CompileError regex)"
    "\<exists>regex. (regex \<in> set [''/wp-'', ''(''] \<and> lit_compile regex = None)
       \<and> snd (New_exact lit_compile ''next'' bad_config_exact ''BlockUrls'') = Inl (CompileError regex)"
    unfolding r by blast+
  then have "snd (New_ip lit_compile ''next'' bad_config_ip ''BlockUrls'') = Inl (CompileError ''('')"
    "snd (New_substr lit_compile ''next'' bad_config_substr ''BlockUrls'') = Inl (CompileError ''('')"
    "snd (New_exact lit_compile ''next'' bad_config_exact ''BlockUrls'') = Inl (CompileError ''('')"
    unfolding only by simp_all
  moreover from t2 ok have "map lit_compile (Regex wp_config) = map Some (regexps wp_blockUrls)"
    by blast
  ultimately show ?thesis by simp
qed

text \<open>
  C7. In the revisions with literal rules, a request whose URL contains a match string
  (equals an exact-match string, in the revision with \<open>exactMatch\<close>) gets the configured
  status code whatever the regular expressions are, and no regular expression is run.
\<close>

theorem literal_rules_before_regex:
  "((\<exists>str \<in> set (matchStrings b). strings_Contains (fullUrl req) str) \<longrightarrow>
      status_writes (ServeHTTP_substr matchString b req) = [statusCode b]
      \<and> next_calls (ServeHTTP_substr matchString b req) = []
      \<and> regex_evals (ServeHTTP_substr matchString b req) = [])
   \<and> (slices_Contains (exactMatch c) (fullUrl req) \<longrightarrow>
      status_writes (ServeHTTP_exact matchString c req) = [statusCode c]
      \<and> next_calls (ServeHTTP_exact matchString c req) = []
      \<and> regex_evals (ServeHTTP_exact matchString c req) = [])"
  by (simp add: ServeHTTP_substr_def ServeHTTP_substr_loop_writes ServeHTTP_substr_loop_calls
      ServeHTTP_substr_loop_evals ServeHTTP_exact_def)

theorem literal_rules_before_regex_witness:
  "status_writes (ServeHTTP_substr lit_matchString sub_blockUrls (something_request [])) = [418]
   \<and> next_calls (ServeHTTP_substr lit_matchString sub_blockUrls (something_request [])) = []
   \<and> regex_evals (ServeHTTP_substr lit_matchString sub_blockUrls (something_request [])) = []
   \<and> status_writes (ServeHTTP_exact lit_matchString exact_blockUrls (something_request [])) = [418]
   \<and> next_calls (ServeHTTP_exact lit_matchString exact_blockUrls (something_request [])) = []
   \<and> regex_evals (ServeHTTP_exact lit_matchString exact_blockUrls (something_request [])) = []"
proof -
  have s: "\<exists>str \<in> set (matchStrings sub_blockUrls). strings_Contains (fullUrl (something_request [])) str"
    by (simp add: sub_blockUrls_def something_request_def fullUrl_def)
  have e: "slices_Contains (exactMatch exact_blockUrls) (fullUrl (something_request []))"
    by (simp add: exact_blockUrls_def something_request_def fullUrl_def slices_Contains_def)
  have c: "statusCode sub_blockUrls = 418" "statusCode exact_blockUrls = 418"
    by (simp_all add: sub_blockUrls_def exact_blockUrls_def)
  show ?thesis
    using literal_rules_before_regex [of sub_blockUrls "something_request []" lit_matchString
            exact_blockUrls] s e
    by (simp add: c)
qed

text \<open>
  C8, as the specification states it: from a configuration without rules a struct can be
  built, and it forwards every request. In the revision with the exemption \<open>New\<close> refuses
  such a configuration.
\<close>

theorem empty_rules_ip_counterexample:
  "snd (New_ip lit_compile ''next'' CreateConfig_ip ''BlockUrls'') = Inl EmptyRegexList"
  by (simp add: New_ip_def CreateConfig_ip_def)

text \<open>
  C8, amended. In the revisions with literal rules, \<open>New\<close> builds a struct from a
  configuration without rules, and it hands every request to the next handler. In the
  revision with the exemption, \<open>New\<close> returns the error for an empty list of patterns.
\<close>

theorem empty_rules_forward:
  "(Regex cs = [] \<and> MatchStrings cs = [] \<longrightarrow>
      (\<exists>b. snd (New_substr compile nxt cs nm) = Inr b
          \<and> (\<forall>req. next_calls (ServeHTTP_substr matchString b req) = [(nxt, req)]
                  \<and> status_writes (ServeHTTP_substr matchString b req) = [])))
   \<and> (Regex ce = [] \<and> ExactMatch ce = [] \<longrightarrow>
      (\<exists>b. snd (New_exact compile nxt ce nm) = Inr b
          \<and> (\<forall>req. next_calls (ServeHTTP_exact matchString b req) = [(nxt, req)]
                  \<and> status_writes (ServeHTTP_exact matchString b req) = [])))
   \<and> (Regex ci = [] \<longrightarrow> snd (New_ip compile nxt ci nm) = Inl EmptyRegexList)"
  by (simp add: New_substr_def New_exact_def New_ip_def Let_def ServeHTTP_substr_def
      ServeHTTP_exact_def slices_Contains_def)

theorem empty_rules_forward_witness:
  "(\<exists>b. snd (New_substr lit_compile ''next'' CreateConfig_substr ''BlockUrls'') = Inr b
       \<and> next_calls (ServeHTTP_substr lit_matchString b (wp_request [])) = [(''next'', wp_request [])]
       \<and> status_writes (ServeHTTP_substr lit_matchString b (wp_request [])) = [])
   \<and> (\<exists>b. snd (New_exact lit_compile ''next'' CreateConfig_exact ''BlockUrls'') = Inr b
       \<and> next_calls (ServeHTTP_exact lit_matchString b (wp_request [])) = [(''next'', wp_request [])]
       \<and> status_writes (ServeHTTP_exact lit_matchString b (wp_request [])) = [])
   \<and> snd (New_ip lit_compile ''next'' CreateConfig_ip ''BlockUrls'') = Inl EmptyRegexList"
proof -
  have e: "Regex CreateConfig_substr = [] \<and> MatchStrings CreateConfig_substr = []"
    "Regex CreateConfig_exact = [] \<and> ExactMatch CreateConfig_exact = []"
    "Regex CreateConfig_ip = []"
    by (simp_all add: CreateConfig_substr_def CreateConfig_exact_def CreateConfig_ip_def)
  show ?thesis
    using empty_rules_forward [of CreateConfig_substr lit_compile "''next''" "''BlockUrls''"
            lit_matchString CreateConfig_exact CreateConfig_ip] e
    by blast
qed

text \<open>
  C9, as the specification states it: addresses separated by commas are extracted whether
  or not white space surrounds them. \<open>FieldsFunc\<close> cuts at commas only and \<open>net.ParseIP\<close>
  accepts no white space: of \<open>10.0.0.1, 10.0.0.2\<close> the second value is not parsed.
\<close>

theorem collect_spaced_counterexample:
  "CollectRemoteIP (wp_request [(''X-Forwarded-For'', [''10.0.0.1, 10.0.0.2''])]) =
     ([[0, 0, 0, 0, 0, 0, 0, 0, 0, 0, 255, 255, 10, 0, 0, 1]],
      Some (ParsingFailed (UnableToParseIP '' 10.0.0.2'')))"
  by (simp add: CollectRemoteIP_def wp_request_def ParseIP_def header_eval parse_eval)

text \<open>
  C9, amended. When the value of \<open>X-Forwarded-For\<close> and that of \<open>X-Real-IP\<close> are texts of
  addresses joined by commas, with nothing around them, \<open>CollectRemoteIP\<close> returns the
  addresses of the first header followed by those of the second, in order, and no error. A
  value that contains a space is never parsed.
\<close>

theorem collect_comma_separated:
  assumes "Header_Get (Header req) ''X-Forwarded-For'' = strings_Join ts1 '',''"
    and "Header_Get (Header req) ''X-Real-IP'' = strings_Join ts2 '',''"
    and "map net_ParseIP ts1 = map Some ips1"
    and "map net_ParseIP ts2 = map Some ips2"
  shows "CollectRemoteIP req = (ips1 @ ips2, None)
         \<and> (\<forall>t. CHR '' '' \<in> set t \<longrightarrow> ParseIP t = Inl (UnableToParseIP t))"
proof -
  have t: "header_tokens req ''X-Forwarded-For'' = ts1" "header_tokens req ''X-Real-IP'' = ts2"
    using assms by (simp_all add: header_tokens_Join)
  have "map net_ParseIP (ts1 @ ts2) = map Some (ips1 @ ips2)" using assms(3,4) by simp
  from parsed_prefix_all [OF this] have "CollectRemoteIP req = (ips1 @ ips2, None)"
    by (simp add: CollectRemoteIP_spec t)
  then show ?thesis by (simp add: ParseIP_def space_not_parsed)
qed

theorem collect_comma_separated_witness:
  "CollectRemoteIP (wp_request [(''X-Forwarded-For'', [''10.0.0.1,2.56.20.0'']),
                                (''X-Real-Ip'', [''fe80::1''])]) =
     ([[0, 0, 0, 0, 0, 0, 0, 0, 0, 0, 255, 255, 10, 0, 0, 1],
       [0, 0, 0, 0, 0, 0, 0, 0, 0, 0, 255, 255, 2, 56, 20, 0],
       [254, 128, 0, 0, 0, 0, 0, 0, 0, 0, 0, 0, 0, 0, 0, 1]], None)
   \<and> ParseIP '' 10.0.0.2'' = Inl (UnableToParseIP '' 10.0.0.2'')"
proof -
  let ?req = "wp_request [(''X-Forwarded-For'', [''10.0.0.1,2.56.20.0'']),
                          (''X-Real-Ip'', [''fe80::1''])]"
  have h1: "Header_Get (Header ?req) ''X-Forwarded-For'' = strings_Join [''10.0.0.1'', ''2.56.20.0''] '',''"
    by (simp add: wp_request_def header_eval)
  have h2: "Header_Get (Header ?req) ''X-Real-IP'' = strings_Join [''fe80::1''] '',''"
    by (simp add: wp_request_def header_eval)
  have p1: "map net_ParseIP [''10.0.0.1'', ''2.56.20.0''] =
      map Some [[0, 0, 0, 0, 0, 0, 0, 0, 0, 0, 255, 255, 10, 0, 0, 1],
                [0, 0, 0, 0, 0, 0, 0, 0, 0, 0, 255, 255, 2, 56, 20, 0]]"
    by (simp add: parse_eval)
  have p2: "map net_ParseIP [''fe80::1''] =
      map Some [[254, 128, 0, 0, 0, 0, 0, 0, 0, 0, 0, 0, 0, 0, 0, 1]]"
    by (simp add: parse_eval)
  have sp: "CHR '' '' \<in> set '' 10.0.0.2''" by simp
  show ?thesis
    using collect_comma_separated [OF h1 h2 p1 p2] sp by simp
qed

text \<open>
  C10. \<open>CollectRemoteIP\<close> returns the addresses of the values of \<open>X-Forwarded-For\<close>
  followed by those of \<open>X-Real-IP\<close>, up to the first value that does not parse, and the
  error for that value if there is one. When that value is in \<open>X-Forwarded-For\<close>, the result
  does not depend on any other header. \<open>ServeHTTP\<close> applies its check to the addresses
  returned, also when an error came with them.
\<close>

theorem collect_partial_list:
  "CollectRemoteIP req =
     (parsed_prefix (header_tokens req ''X-Forwarded-For'' @ header_tokens req ''X-Real-IP''),
      map_option (\<lambda>t. ParsingFailed (UnableToParseIP t))
        (first_bad (header_tokens req ''X-Forwarded-For'' @ header_tokens req ''X-Real-IP'')))
   \<and> (first_bad (header_tokens req ''X-Forwarded-For'') \<noteq> None
       \<and> Header_Get (Header req') ''X-Forwarded-For'' = Header_Get (Header req) ''X-Forwarded-For''
       \<longrightarrow> CollectRemoteIP req' = CollectRemoteIP req)
   \<and> (allowLocalRequests b \<and> (\<exists>regex \<in> set (regexps b). matchString regex (fullUrl req)) \<longrightarrow>
       (if \<forall>ip \<in> set (parsed_prefix (header_tokens req ''X-Forwarded-For''
                                         @ header_tokens req ''X-Real-IP'')).
             IsPrivateIP ip (privateIPRanges b)
        then next_calls (ServeHTTP_ip matchString b req) = [(nextHandler b, req)]
             \<and> status_writes (ServeHTTP_ip matchString b req) = []
        else status_writes (ServeHTTP_ip matchString b req) = [statusCode b]
             \<and> next_calls (ServeHTTP_ip matchString b req) = []))"
proof (intro conjI impI)
  show c: "CollectRemoteIP req =
     (parsed_prefix (header_tokens req ''X-Forwarded-For'' @ header_tokens req ''X-Real-IP''),
      map_option (\<lambda>t. ParsingFailed (UnableToParseIP t))
        (first_bad (header_tokens req ''X-Forwarded-For'' @ header_tokens req ''X-Real-IP'')))"
    by (rule CollectRemoteIP_spec)
  show "CollectRemoteIP req' = CollectRemoteIP req"
    if "first_bad (header_tokens req ''X-Forwarded-For'') \<noteq> None
       \<and> Header_Get (Header req') ''X-Forwarded-For'' = Header_Get (Header req) ''X-Forwarded-For''"
  proof -
    from that have "header_tokens req' ''X-Forwarded-For'' = header_tokens req ''X-Forwarded-For''"
      by (simp add: header_tokens_def)
    with that show ?thesis
      by (auto simp: CollectRemoteIP_spec parsed_prefix_append first_bad_append)
  qed
  show "if \<forall>ip \<in> set (parsed_prefix (header_tokens req ''X-Forwarded-For''
                                         @ header_tokens req ''X-Real-IP'')).
             IsPrivateIP ip (privateIPRanges b)
        then next_calls (ServeHTTP_ip matchString b req) = [(nextHandler b, req)]
             \<and> status_writes (ServeHTTP_ip matchString b req) = []
        else status_writes (ServeHTTP_ip matchString b req) = [statusCode b]
             \<and> next_calls (ServeHTTP_ip matchString b req) = []"
    if "allowLocalRequests b \<and> (\<exists>regex \<in> set (regexps b). matchString regex (fullUrl req))"
    using that by (simp add: ServeHTTP_ip_writes ServeHTTP_ip_calls c)
qed

theorem collect_partial_list_witness:
  "CollectRemoteIP (wp_request partial_headers) =
     ([[0, 0, 0, 0, 0, 0, 0, 0, 0, 0, 255, 255, 10, 0, 0, 1]],
      Some (ParsingFailed (UnableToParseIP ''unknown'')))
   \<and> CollectRemoteIP (wp_request [(''X-Forwarded-For'', [''10.0.0.1,unknown,2.56.20.0''])])
       = CollectRemoteIP (wp_request partial_headers)
   \<and> next_calls (ServeHTTP_ip lit_matchString wp_blockUrls (wp_request partial_headers))
       = [(''next'', wp_request partial_headers)]
   \<and> status_writes (ServeHTTP_ip lit_matchString wp_blockUrls (wp_request partial_headers)) = []"
proof -
  let ?req = "wp_request partial_headers"
  let ?req' = "wp_request [(''X-Forwarded-For'', [''10.0.0.1,unknown,2.56.20.0''])]"
  have bad: "first_bad (header_tokens ?req ''X-Forwarded-For'') \<noteq> None"
    by (simp add: partial_tokens partial_parse)
  have same: "Header_Get (Header ?req') ''X-Forwarded-For'' = Header_Get (Header ?req) ''X-Forwarded-For''"
    by (simp add: wp_request_def partial_headers_def header_eval)
  have a: "allowLocalRequests wp_blockUrls
           \<and> (\<exists>regex \<in> set (regexps wp_blockUrls). lit_matchString regex (fullUrl ?req))"
    by (simp add: wp_blockUrls_def match_wp)
  have p: "\<forall>ip \<in> set (parsed_prefix (header_tokens ?req ''X-Forwarded-For''
                                       @ header_tokens ?req ''X-Real-IP'')).
             IsPrivateIP ip (privateIPRanges wp_blockUrls)"
    by (simp add: partial_tokens partial_parse wp_blockUrls_def class_eval)
  have n: "nextHandler wp_blockUrls = ''next''" by (simp add: wp_blockUrls_def)
  show ?thesis
    using collect_partial_list [of ?req ?req' wp_blockUrls lit_matchString] bad same a p
    by (simp add: partial_tokens partial_parse n)
qed

end
